theory Spec2Isabelle
  imports Complex_Main "HOL-Library.Monad_Syntax"
begin

section \<open>Data model of the survival game\<close>

text \<open>
  The game logic lives in the second copy of the game component (the one with levels and
  emoji). The source calls the avatar \<open>rich\<close>, the friendlies \<open>humans\<close> and the hostiles
  \<open>zombies\<close>. A TypeScript \<open>number\<close> that holds a coordinate is a double; it is modelled
  as the \<open>real\<close> it denotes, and the arithmetic of \<open>distance\<close> and \<open>moveTowards\<close> rounds
  every result to a double (next section). Identities, the score and the turn counter are
  whole numbers in every level and are only ever incremented by whole numbers, they are
  modelled as \<open>int\<close>.
\<close>

record point =
  p_x :: real
  p_y :: real

record human =
  h_id :: int
  h_x :: real
  h_y :: real
  h_alive :: bool
  h_emoji :: string

record zombie =
  z_id :: int
  z_x :: real
  z_y :: real
  z_xNext :: real
  z_yNext :: real
  z_alive :: bool

record game_state =
  rich :: point
  humans :: "human list"
  zombies :: "zombie list"
  score :: int
  turn :: int
  gameOver :: bool
  won :: bool
  message :: string

definition RICH_SPEED :: real where
  "RICH_SPEED = 1000"

definition RICH_RANGE :: real where
  "RICH_RANGE = 2000"

definition ZOMBIE_SPEED :: real where
  "ZOMBIE_SPEED = 400"

section \<open>Double precision arithmetic\<close>

text \<open>
  A finite double is a real number. \<open>rnd x\<close> is the double nearest to \<open>x\<close>, with ties
  going to the even significand (IEEE 754 binary64, the rounding of every arithmetic
  operation of the source): a number of magnitude at least \<open>2 powr - 1022\<close> is rounded to
  53 significant bits, a smaller one to a multiple of \<open>2 powr - 1074\<close>. Results of
  magnitude \<open>2 ^ 1024\<close> and more, which overflow to Infinity, and the values Infinity and
  NaN are not modelled; the theorems that depend on the rounding bound the coordinates.
  \<open>x ** 2\<close> is taken to be the rounded product \<open>x * x\<close>, and \<open>Math.sqrt\<close> the rounded
  square root.
\<close>

definition roundEven :: "real \<Rightarrow> int" where
  "roundEven y =
     (let f = \<lfloor>y\<rfloor>; r = y - of_int f in
      if r < 1 / 2 then f
      else if 1 / 2 < r then f + 1
      else if even f then f else f + 1)"

definition expo :: "real \<Rightarrow> int" where
  "expo x = max \<lfloor>log 2 \<bar>x\<bar>\<rfloor> (- 1022)"

definition ulp :: "real \<Rightarrow> real" where
  "ulp x = 2 powr (of_int (expo x) - 52)"

definition rnd :: "real \<Rightarrow> real" where
  "rnd x = (if x = 0 then 0 else of_int (roundEven (x / ulp x)) * ulp x)"

section \<open>Geometry\<close>

definition distance :: "real \<Rightarrow> real \<Rightarrow> real \<Rightarrow> real \<Rightarrow> real" where
  "distance x1 y1 x2 y2 = rnd (sqrt (rnd (rnd ((rnd (x2 - x1))\<^sup>2) + rnd ((rnd (y2 - y1))\<^sup>2))))"

definition moveTowards :: "real \<Rightarrow> real \<Rightarrow> real \<Rightarrow> real \<Rightarrow> real \<Rightarrow> point" where
  "moveTowards fromX fromY toX toY speed =
     (let dist = distance fromX fromY toX toY in
      if dist \<le> speed then \<lparr>p_x = toX, p_y = toY\<rparr>
      else
        let ratio = rnd (speed / dist) in
        \<lparr>p_x = of_int \<lfloor>rnd (fromX + rnd (rnd (toX - fromX) * ratio))\<rfloor>,
         p_y = of_int \<lfloor>rnd (fromY + rnd (rnd (toY - fromY) * ratio))\<rfloor>\<rparr>)"

section \<open>Threat resolution\<close>

text \<open>
  The loop of \<open>findClosestHuman\<close> carries the pair \<open>(closest, minDist)\<close> through the humans
  in list order.
\<close>

fun closestLoop :: "zombie \<Rightarrow> human list \<Rightarrow> point \<times> real \<Rightarrow> point \<times> real" where
  "closestLoop z [] acc = acc"
| "closestLoop z (h # hs) (closest, minDist) =
     (if \<not> h_alive h then closestLoop z hs (closest, minDist)
      else
        let dist = distance (z_x z) (z_y z) (h_x h) (h_y h) in
        if dist < minDist then closestLoop z hs (\<lparr>p_x = h_x h, p_y = h_y h\<rparr>, dist)
        else closestLoop z hs (closest, minDist))"

definition findClosestHuman :: "zombie \<Rightarrow> human list \<Rightarrow> point \<Rightarrow> point" where
  "findClosestHuman z hs r =
     fst (closestLoop z hs
            (\<lparr>p_x = p_x r, p_y = p_y r\<rparr>, distance (z_x z) (z_y z) (p_x r) (p_y r)))"

section \<open>Combo multiplier\<close>

definition fibs :: "int list" where
  "fibs = [1, 2, 3, 5, 8, 13, 21, 34, 55, 89, 144, 233, 377, 610, 987]"

text \<open>
  \<open>fibonacci\<close> is only called with \<open>zombiesKilledThisTurn - 1\<close> after the counter was
  incremented, so its argument is a natural number.
\<close>

definition fibonacci :: "nat \<Rightarrow> int" where
  "fibonacci n = fibs ! (min n (length fibs - 1))"

section \<open>The turn simulator\<close>

text \<open>Phase 1: every alive zombie moves towards its target.\<close>

definition moveZombie :: "human list \<Rightarrow> point \<Rightarrow> zombie \<Rightarrow> zombie" where
  "moveZombie hs r z =
     (if \<not> z_alive z then z
      else
        let target = findClosestHuman z hs r;
            newPos = moveTowards (z_x z) (z_y z) (p_x target) (p_y target) ZOMBIE_SPEED
        in z\<lparr>z_x := p_x newPos, z_y := p_y newPos\<rparr>)"

text \<open>
  Phase 3: the elimination loop. It carries the kill counter of this turn and the score;
  \<open>aliveHumans\<close> is computed once by the caller.
\<close>

fun killZombies :: "point \<Rightarrow> nat \<Rightarrow> zombie list \<Rightarrow> nat \<times> int \<Rightarrow> zombie list \<times> nat \<times> int" where
  "killZombies r aliveHumans [] (killed, sc) = ([], killed, sc)"
| "killZombies r aliveHumans (z # zs) (killed, sc) =
     (if \<not> z_alive z then
        (let (zs', res) = killZombies r aliveHumans zs (killed, sc) in (z # zs', res))
      else
        let dist = distance (p_x r) (p_y r) (z_x z) (z_y z) in
        if dist \<le> RICH_RANGE then
          let killed' = killed + 1;
              baseScore = int aliveHumans * int aliveHumans * 10;
              fibMultiplier = fibonacci (killed' - 1);
              (zs', res) = killZombies r aliveHumans zs (killed', sc + baseScore * fibMultiplier)
          in (z\<lparr>z_alive := False\<rparr> # zs', res)
        else
          (let (zs', res) = killZombies r aliveHumans zs (killed, sc) in (z # zs', res)))"

text \<open>
  Phase 4: every alive zombie eats the alive humans within 400 units. The comparison is
  \<open>dist <= 400\<close>; the earlier copy of the component compares \<open>dist < ZOMBIE_SPEED\<close>.
\<close>

definition eatHuman :: "zombie \<Rightarrow> human \<Rightarrow> human" where
  "eatHuman z h =
     (if \<not> h_alive h then h
      else if distance (z_x z) (z_y z) (h_x h) (h_y h) \<le> 400 then h\<lparr>h_alive := False\<rparr>
      else h)"

fun eatHumans :: "zombie list \<Rightarrow> human list \<Rightarrow> human list" where
  "eatHumans [] hs = hs"
| "eatHumans (z # zs) hs =
     (if \<not> z_alive z then eatHumans zs hs else eatHumans zs (map (eatHuman z) hs))"

text \<open>Phase 5: the projected next position of every alive zombie.\<close>

definition updateNext :: "human list \<Rightarrow> point \<Rightarrow> zombie \<Rightarrow> zombie" where
  "updateNext hs r z =
     (if \<not> z_alive z then z
      else
        let target = findClosestHuman z hs r;
            nextPos = moveTowards (z_x z) (z_y z) (p_x target) (p_y target) ZOMBIE_SPEED
        in z\<lparr>z_xNext := p_x nextPos, z_yNext := p_y nextPos\<rparr>)"

text \<open>The decimal rendering of the score in the victory message.\<close>

fun showNat :: "nat \<Rightarrow> string" where
  "showNat n =
     (if n < 10 then [''0123456789'' ! n]
      else showNat (n div 10) @ [''0123456789'' ! (n mod 10)])"

declare showNat.simps [simp del]

definition showInt :: "int \<Rightarrow> string" where
  "showInt i = (if i < 0 then CHR ''-'' # showNat (nat (- i)) else showNat (nat i))"

definition checkEnd :: "game_state \<Rightarrow> game_state" where
  "checkEnd s =
     (let remainingHumans = length (filter h_alive (humans s));
          remainingZombies = length (filter z_alive (zombies s))
      in
        if remainingZombies = 0 \<and> remainingHumans > 0 then
          s\<lparr>gameOver := True, won := True,
            message := ''Victory! Score: '' @ showInt (score s)\<rparr>
        else if remainingHumans = 0 then
          s\<lparr>gameOver := True, won := False, message := ''Game Over - All humans died!''\<rparr>
        else s)"

definition simulateTurn :: "game_state \<Rightarrow> real \<Rightarrow> real \<Rightarrow> game_state" where
  "simulateTurn state targetX targetY =
     (let s1 = state\<lparr>turn := turn state + 1\<rparr>;
          s2 = s1\<lparr>zombies := map (moveZombie (humans s1) (rich s1)) (zombies s1)\<rparr>;
          richNewPos = moveTowards (p_x (rich s2)) (p_y (rich s2)) targetX targetY RICH_SPEED;
          s3 = s2\<lparr>rich := (rich s2)\<lparr>p_x := p_x richNewPos, p_y := p_y richNewPos\<rparr>\<rparr>;
          aliveHumans = length (filter h_alive (humans s3));
          (zs, zombiesKilledThisTurn, sc) =
             killZombies (rich s3) aliveHumans (zombies s3) (0, score s3);
          s4 = s3\<lparr>zombies := zs, score := sc\<rparr>;
          s5 = s4\<lparr>humans := eatHumans (zombies s4) (humans s4)\<rparr>;
          s6 = s5\<lparr>zombies := map (updateNext (humans s5) (rich s5)) (zombies s5)\<rparr>
      in checkEnd s6)"

section \<open>The batch evaluator\<close>

text \<open>
  A strategy is code supplied from outside. \<open>runTestCase\<close> calls it with the state object
  of the loop itself, so the strategy may write into that object before it is handed to
  \<open>simulateTurn\<close>; it may keep state of its own between calls, throw, or never return.
  A strategy is therefore a function of its own state and of the game state that answers
  with a \<open>reply\<close>: \<open>Reply \<sigma> s target\<close> returns \<open>target\<close>, a point with finite
  coordinates, and leaves its own state as \<open>\<sigma>\<close> and the state object as \<open>s\<close>. \<open>Throw\<close>
  stands for everything that ends in the \<open>catch\<close> of the loop: the strategy throws, it
  returns nothing to read coordinates from, or it leaves the state object unfit for
  \<open>simulateTurn\<close>, which then throws inside the same \<open>try\<close>. The loop need not end (a
  strategy may put the turn counter back), so \<open>runLoop\<close> is a partial function: \<open>None\<close>
  stands for a run that never returns. The component holds the strategy in a nullable
  variable, hence the option in \<open>runTestCase\<close>.
\<close>

datatype 'a reply = Reply 'a game_state point | Throw | Hang

datatype run = Thrown | Ended game_state

definition maxTurns :: int where
  "maxTurns = 200"

partial_function (option) runLoop ::
    "('a \<Rightarrow> game_state \<Rightarrow> 'a reply) \<Rightarrow> 'a \<Rightarrow> game_state \<Rightarrow> run option" where
  "runLoop alg \<sigma> s =
     (if \<not> gameOver s \<and> turn s < maxTurns then
        (case alg \<sigma> s of
           Hang \<Rightarrow> None
         | Throw \<Rightarrow> Some Thrown
         | Reply \<sigma>' s' target \<Rightarrow> runLoop alg \<sigma>' (simulateTurn s' (p_x target) (p_y target)))
      else Some (Ended s))"

definition runTestCase ::
    "('a \<Rightarrow> game_state \<Rightarrow> 'a reply) option \<Rightarrow> 'a \<Rightarrow> game_state \<Rightarrow> bool option" where
  "runTestCase algorithm \<sigma> initialState =
     (case algorithm of
        None \<Rightarrow> Some False
      | Some alg \<Rightarrow>
          (case runLoop alg \<sigma> initialState of
             None \<Rightarrow> None
           | Some Thrown \<Rightarrow> Some False
           | Some (Ended s) \<Rightarrow> Some (won s)))"

section \<open>The turn simulator on a store\<close>

text \<open>
  \<open>simulateTurn\<close> begins with \<open>JSON.parse(JSON.stringify(state))\<close> and then writes into
  the copy in place. To speak about what happens to the caller's objects, the same code is
  modelled once more on an explicit store. A reference is an index into the store of its
  kind of object: points, humans, zombies, arrays of human references, arrays of zombie
  references, state objects. A read through a dangling reference is \<open>None\<close>.
  \<open>readState\<close> is what \<open>JSON.stringify\<close> reads through the references, \<open>allocState\<close>
  is what \<open>JSON.parse\<close> allocates, and the functions ending in \<open>H\<close> are the statements
  of \<open>simulateTurn\<close>, each reading and writing the store through the reference
  \<open>newState\<close>.
\<close>

record state_obj =
  o_rich :: nat
  o_humans :: nat
  o_zombies :: nat
  o_score :: int
  o_turn :: int
  o_gameOver :: bool
  o_won :: bool
  o_message :: string

record heap =
  points :: "point list"
  humanObjs :: "human list"
  zombieObjs :: "zombie list"
  humanArrays :: "nat list list"
  zombieArrays :: "nat list list"
  stateObjs :: "state_obj list"

definition lookup :: "'a list \<Rightarrow> nat \<Rightarrow> 'a option" where
  "lookup xs a = (if a < length xs then Some (xs ! a) else None)"

fun lookupAll :: "'a list \<Rightarrow> nat list \<Rightarrow> 'a list option" where
  "lookupAll xs [] = Some []"
| "lookupAll xs (a # as) =
     do { x \<leftarrow> lookup xs a; ys \<leftarrow> lookupAll xs as; Some (x # ys) }"

definition readHumans :: "heap \<Rightarrow> nat \<Rightarrow> human list option" where
  "readHumans H arr = do { as \<leftarrow> lookup (humanArrays H) arr; lookupAll (humanObjs H) as }"

definition readZombies :: "heap \<Rightarrow> nat \<Rightarrow> zombie list option" where
  "readZombies H arr = do { as \<leftarrow> lookup (zombieArrays H) arr; lookupAll (zombieObjs H) as }"

definition readState :: "heap \<Rightarrow> nat \<Rightarrow> game_state option" where
  "readState H p =
     do {
       so \<leftarrow> lookup (stateObjs H) p;
       r \<leftarrow> lookup (points H) (o_rich so);
       hs \<leftarrow> readHumans H (o_humans so);
       zs \<leftarrow> readZombies H (o_zombies so);
       Some \<lparr>rich = r, humans = hs, zombies = zs, score = o_score so, turn = o_turn so,
             gameOver = o_gameOver so, won = o_won so, message = o_message so\<rparr>
     }"

definition allocState :: "heap \<Rightarrow> game_state \<Rightarrow> heap \<times> nat" where
  "allocState H v =
     (let richRef = length (points H);
          humanRefs = [length (humanObjs H) ..< length (humanObjs H) + length (humans v)];
          humansRef = length (humanArrays H);
          zombieRefs = [length (zombieObjs H) ..< length (zombieObjs H) + length (zombies v)];
          zombiesRef = length (zombieArrays H);
          stateRef = length (stateObjs H)
      in (\<lparr>points = points H @ [rich v],
           humanObjs = humanObjs H @ humans v,
           zombieObjs = zombieObjs H @ zombies v,
           humanArrays = humanArrays H @ [humanRefs],
           zombieArrays = zombieArrays H @ [zombieRefs],
           stateObjs = stateObjs H @
             [\<lparr>o_rich = richRef, o_humans = humansRef, o_zombies = zombiesRef,
               o_score = score v, o_turn = turn v, o_gameOver = gameOver v, o_won = won v,
               o_message = message v\<rparr>]\<rparr>,
          stateRef))"

definition cloneState :: "heap \<Rightarrow> nat \<Rightarrow> (heap \<times> nat) option" where
  "cloneState H p = do { v \<leftarrow> readState H p; Some (allocState H v) }"

fun forEachH :: "(nat \<Rightarrow> heap \<Rightarrow> heap option) \<Rightarrow> nat list \<Rightarrow> heap \<Rightarrow> heap option" where
  "forEachH body [] H = Some H"
| "forEachH body (a # as) H = do { H' \<leftarrow> body a H; forEachH body as H' }"

definition incTurnH :: "nat \<Rightarrow> heap \<Rightarrow> heap option" where
  "incTurnH q H =
     do {
       so \<leftarrow> lookup (stateObjs H) q;
       Some (H\<lparr>stateObjs := (stateObjs H)[q := so\<lparr>o_turn := o_turn so + 1\<rparr>]\<rparr>)
     }"

definition moveZombieH :: "nat \<Rightarrow> nat \<Rightarrow> heap \<Rightarrow> heap option" where
  "moveZombieH q a H =
     do {
       z \<leftarrow> lookup (zombieObjs H) a;
       if \<not> z_alive z then Some H
       else do {
         so \<leftarrow> lookup (stateObjs H) q;
         hs \<leftarrow> readHumans H (o_humans so);
         r \<leftarrow> lookup (points H) (o_rich so);
         let target = findClosestHuman z hs r;
             newPos = moveTowards (z_x z) (z_y z) (p_x target) (p_y target) ZOMBIE_SPEED
         in Some (H\<lparr>zombieObjs := (zombieObjs H)[a := z\<lparr>z_x := p_x newPos, z_y := p_y newPos\<rparr>]\<rparr>)
       }
     }"

definition moveRichH :: "nat \<Rightarrow> real \<Rightarrow> real \<Rightarrow> heap \<Rightarrow> heap option" where
  "moveRichH q targetX targetY H =
     do {
       so \<leftarrow> lookup (stateObjs H) q;
       r \<leftarrow> lookup (points H) (o_rich so);
       let richNewPos = moveTowards (p_x r) (p_y r) targetX targetY RICH_SPEED
       in Some (H\<lparr>points := (points H)[o_rich so := r\<lparr>p_x := p_x richNewPos, p_y := p_y richNewPos\<rparr>]\<rparr>)
     }"

fun killLoopH :: "nat \<Rightarrow> nat \<Rightarrow> nat list \<Rightarrow> nat \<Rightarrow> heap \<Rightarrow> (nat \<times> heap) option" where
  "killLoopH q aliveHumans [] killed H = Some (killed, H)"
| "killLoopH q aliveHumans (a # as) killed H =
     do {
       z \<leftarrow> lookup (zombieObjs H) a;
       if \<not> z_alive z then killLoopH q aliveHumans as killed H
       else do {
         so \<leftarrow> lookup (stateObjs H) q;
         r \<leftarrow> lookup (points H) (o_rich so);
         let dist = distance (p_x r) (p_y r) (z_x z) (z_y z) in
         if dist \<le> RICH_RANGE then
           let H1 = H\<lparr>zombieObjs := (zombieObjs H)[a := z\<lparr>z_alive := False\<rparr>]\<rparr>;
               killed' = killed + 1;
               baseScore = int aliveHumans * int aliveHumans * 10;
               fibMultiplier = fibonacci (killed' - 1);
               H2 = H1\<lparr>stateObjs :=
                      (stateObjs H1)[q := so\<lparr>o_score := o_score so + baseScore * fibMultiplier\<rparr>]\<rparr>
           in killLoopH q aliveHumans as killed' H2
         else killLoopH q aliveHumans as killed H
       }
     }"

definition eatInnerH :: "nat \<Rightarrow> nat \<Rightarrow> heap \<Rightarrow> heap option" where
  "eatInnerH za ha H =
     do {
       z \<leftarrow> lookup (zombieObjs H) za;
       h \<leftarrow> lookup (humanObjs H) ha;
       if \<not> h_alive h then Some H
       else if distance (z_x z) (z_y z) (h_x h) (h_y h) \<le> 400 then
         Some (H\<lparr>humanObjs := (humanObjs H)[ha := h\<lparr>h_alive := False\<rparr>]\<rparr>)
       else Some H
     }"

definition eatOuterH :: "nat \<Rightarrow> nat \<Rightarrow> heap \<Rightarrow> heap option" where
  "eatOuterH q za H =
     do {
       z \<leftarrow> lookup (zombieObjs H) za;
       if \<not> z_alive z then Some H
       else do {
         so \<leftarrow> lookup (stateObjs H) q;
         has \<leftarrow> lookup (humanArrays H) (o_humans so);
         forEachH (eatInnerH za) has H
       }
     }"

definition updateNextH :: "nat \<Rightarrow> nat \<Rightarrow> heap \<Rightarrow> heap option" where
  "updateNextH q a H =
     do {
       z \<leftarrow> lookup (zombieObjs H) a;
       if \<not> z_alive z then Some H
       else do {
         so \<leftarrow> lookup (stateObjs H) q;
         hs \<leftarrow> readHumans H (o_humans so);
         r \<leftarrow> lookup (points H) (o_rich so);
         let target = findClosestHuman z hs r;
             nextPos = moveTowards (z_x z) (z_y z) (p_x target) (p_y target) ZOMBIE_SPEED
         in Some (H\<lparr>zombieObjs :=
                    (zombieObjs H)[a := z\<lparr>z_xNext := p_x nextPos, z_yNext := p_y nextPos\<rparr>]\<rparr>)
       }
     }"

definition checkEndH :: "nat \<Rightarrow> heap \<Rightarrow> heap option" where
  "checkEndH q H =
     do {
       so \<leftarrow> lookup (stateObjs H) q;
       hs \<leftarrow> readHumans H (o_humans so);
       zs \<leftarrow> readZombies H (o_zombies so);
       let remainingHumans = length (filter h_alive hs);
           remainingZombies = length (filter z_alive zs)
       in
         if remainingZombies = 0 \<and> remainingHumans > 0 then
           Some (H\<lparr>stateObjs := (stateObjs H)[q := so\<lparr>o_gameOver := True, o_won := True,
                   o_message := ''Victory! Score: '' @ showInt (o_score so)\<rparr>]\<rparr>)
         else if remainingHumans = 0 then
           Some (H\<lparr>stateObjs := (stateObjs H)[q := so\<lparr>o_gameOver := True, o_won := False,
                   o_message := ''Game Over - All humans died!''\<rparr>]\<rparr>)
         else Some H
     }"

definition simulateTurnH :: "heap \<Rightarrow> nat \<Rightarrow> real \<Rightarrow> real \<Rightarrow> (heap \<times> nat) option" where
  "simulateTurnH H state targetX targetY =
     do {
       (H0, newState) \<leftarrow> cloneState H state;
       H1 \<leftarrow> incTurnH newState H0;
       so \<leftarrow> lookup (stateObjs H1) newState;
       zas \<leftarrow> lookup (zombieArrays H1) (o_zombies so);
       H2 \<leftarrow> forEachH (moveZombieH newState) zas H1;
       H3 \<leftarrow> moveRichH newState targetX targetY H2;
       hs \<leftarrow> readHumans H3 (o_humans so);
       (zombiesKilledThisTurn, H4) \<leftarrow>
          killLoopH newState (length (filter h_alive hs)) zas 0 H3;
       H5 \<leftarrow> forEachH (eatOuterH newState) zas H4;
       H6 \<leftarrow> forEachH (updateNextH newState) zas H5;
       H7 \<leftarrow> checkEndH newState H6;
       Some (H7, newState)
     }"

section \<open>Names for the intermediate values of a turn\<close>

text \<open>
  The theorems below speak about the world in the middle of a turn: the zombies after their
  move, the avatar after its move, the zombies after the elimination pass.
\<close>

definition inRange :: "point \<Rightarrow> zombie \<Rightarrow> bool" where
  "inRange r z \<longleftrightarrow> z_alive z \<and> distance (p_x r) (p_y r) (z_x z) (z_y z) \<le> RICH_RANGE"

definition movedZombies :: "game_state \<Rightarrow> zombie list" where
  "movedZombies s = map (moveZombie (humans s) (rich s)) (zombies s)"

definition richAfter :: "game_state \<Rightarrow> real \<Rightarrow> real \<Rightarrow> point" where
  "richAfter s tx ty =
     (let richNewPos = moveTowards (p_x (rich s)) (p_y (rich s)) tx ty RICH_SPEED
      in (rich s)\<lparr>p_x := p_x richNewPos, p_y := p_y richNewPos\<rparr>)"

definition aliveHumansOf :: "game_state \<Rightarrow> nat" where
  "aliveHumansOf s = length (filter h_alive (humans s))"

definition survivingZombies :: "game_state \<Rightarrow> real \<Rightarrow> real \<Rightarrow> zombie list" where
  "survivingZombies s tx ty =
     map (\<lambda>z. if inRange (richAfter s tx ty) z then z\<lparr>z_alive := False\<rparr> else z)
       (movedZombies s)"

definition killsThisTurn :: "game_state \<Rightarrow> real \<Rightarrow> real \<Rightarrow> nat" where
  "killsThisTurn s tx ty = length (filter (inRange (richAfter s tx ty)) (movedZombies s))"

text \<open>The distance from a hostile to a friendly and the position of a friendly.\<close>

definition hdist :: "zombie \<Rightarrow> human \<Rightarrow> real" where
  "hdist z h = distance (z_x z) (z_y z) (h_x h) (h_y h)"

definition hpos :: "human \<Rightarrow> point" where
  "hpos h = \<lparr>p_x = h_x h, p_y = h_y h\<rparr>"


text \<open>The exact Euclidean distance, in which the bounds on \<open>moveTowards\<close> are stated.\<close>

definition euclid :: "real \<Rightarrow> real \<Rightarrow> real \<Rightarrow> real \<Rightarrow> real" where
  "euclid x1 y1 x2 y2 = sqrt ((x2 - x1)\<^sup>2 + (y2 - y1)\<^sup>2)"

text \<open>
  The store after a value was allocated in it, the reference of the new state object, and
  the state object itself.
\<close>

definition layout :: "heap \<Rightarrow> game_state \<Rightarrow> heap" where
  "layout H v = fst (allocState H v)"

definition newRef :: "heap \<Rightarrow> nat" where
  "newRef H = length (stateObjs H)"

definition stateObjOf :: "heap \<Rightarrow> game_state \<Rightarrow> state_obj" where
  "stateObjOf H v =
     \<lparr>o_rich = length (points H), o_humans = length (humanArrays H),
      o_zombies = length (zombieArrays H), o_score = score v, o_turn = turn v,
      o_gameOver = gameOver v, o_won = won v, o_message = message v\<rparr>"

section \<open>Concrete worlds\<close>

text \<open>
  The avatar at (8000, 4500) with one hostile on the same spot, without friendlies and with
  one friendly far away.
\<close>

definition coincidentNoHumans :: game_state where
  "coincidentNoHumans =
     \<lparr>rich = \<lparr>p_x = 8000, p_y = 4500\<rparr>,
      humans = [],
      zombies = [\<lparr>z_id = 0, z_x = 8000, z_y = 4500, z_xNext = 0, z_yNext = 0, z_alive = True\<rparr>],
      score = 0, turn = 0, gameOver = False, won = False, message = ''''\<rparr>"

definition coincidentOneHuman :: game_state where
  "coincidentOneHuman =
     \<lparr>rich = \<lparr>p_x = 8000, p_y = 4500\<rparr>,
      humans = [\<lparr>h_id = 0, h_x = 0, h_y = 0, h_alive = True, h_emoji = ''''\<rparr>],
      zombies = [\<lparr>z_id = 0, z_x = 8000, z_y = 4500, z_xNext = 0, z_yNext = 0, z_alive = True\<rparr>],
      score = 0, turn = 0, gameOver = False, won = False, message = ''''\<rparr>"

text \<open>
  A world with three friendlies alive and one dead, two hostiles at or next to the avatar,
  one hostile 300 units from the first friendly, whose neighbour is exactly 400 units from
  it, and one dead hostile.
\<close>

definition packWorld :: game_state where
  "packWorld =
     \<lparr>rich = \<lparr>p_x = 8000, p_y = 4500\<rparr>,
      humans =
        [\<lparr>h_id = 0, h_x = 1000, h_y = 1000, h_alive = True, h_emoji = ''''\<rparr>,
         \<lparr>h_id = 1, h_x = 1240, h_y = 1320, h_alive = True, h_emoji = ''''\<rparr>,
         \<lparr>h_id = 2, h_x = 15000, h_y = 8000, h_alive = True, h_emoji = ''''\<rparr>,
         \<lparr>h_id = 3, h_x = 8000, h_y = 4600, h_alive = False, h_emoji = ''''\<rparr>],
      zombies =
        [\<lparr>z_id = 0, z_x = 8000, z_y = 4500, z_xNext = 0, z_yNext = 0, z_alive = True\<rparr>,
         \<lparr>z_id = 1, z_x = 8300, z_y = 4500, z_xNext = 0, z_yNext = 0, z_alive = True\<rparr>,
         \<lparr>z_id = 2, z_x = 1000, z_y = 700, z_xNext = 0, z_yNext = 0, z_alive = True\<rparr>,
         \<lparr>z_id = 3, z_x = 1000, z_y = 1000, z_xNext = 7, z_yNext = 9, z_alive = False\<rparr>],
      score = 0, turn = 0, gameOver = False, won = False, message = ''''\<rparr>"

text \<open>A hostile with a dead friendly next to it and two alive friendlies at the same distance.\<close>

definition tieZombie :: zombie where
  "tieZombie = \<lparr>z_id = 0, z_x = 0, z_y = 0, z_xNext = 0, z_yNext = 0, z_alive = True\<rparr>"

definition tieHumans :: "human list" where
  "tieHumans =
     [\<lparr>h_id = 0, h_x = 0, h_y = 100, h_alive = False, h_emoji = ''''\<rparr>,
      \<lparr>h_id = 1, h_x = 0, h_y = 300, h_alive = True, h_emoji = ''''\<rparr>,
      \<lparr>h_id = 2, h_x = 300, h_y = 0, h_alive = True, h_emoji = ''''\<rparr>,
      \<lparr>h_id = 3, h_x = 0, h_y = 500, h_alive = True, h_emoji = ''''\<rparr>]"



definition startOver :: "game_state \<Rightarrow> unit \<Rightarrow> game_state \<Rightarrow> unit reply" where
  "startOver s0 \<sigma> s = Reply () s0 (rich s0)"

text \<open>
  A world whose only hostile is far below the avatar on the same vertical line, and what
  stays true of it while the avatar does not move.
\<close>

definition farWorld :: game_state where
  "farWorld =
     \<lparr>rich = \<lparr>p_x = 0, p_y = 0\<rparr>,
      humans = [\<lparr>h_id = 0, h_x = 0, h_y = 1000, h_alive = True, h_emoji = ''''\<rparr>],
      zombies = [\<lparr>z_id = 0, z_x = 0, z_y = - 100000, z_xNext = 0, z_yNext = 0, z_alive = True\<rparr>],
      score = 0, turn = 0, gameOver = False, won = False, message = ''''\<rparr>"

definition farInv :: "game_state \<Rightarrow> bool" where
  "farInv s \<longleftrightarrow>
     rich s = \<lparr>p_x = 0, p_y = 0\<rparr> \<and>
     (\<exists>h. humans s = [h] \<and> h_alive h \<and> h_x h = 0 \<and> h_y h = 1000) \<and>
     (\<exists>z. zombies s = [z] \<and> z_alive z \<and> z_x z = 0 \<and> z_y z \<in> \<int> \<and>
          - 100000 \<le> z_y z \<and> z_y z \<le> - 100000 + 401 * real_of_int (turn s)) \<and>
     0 \<le> turn s \<and> turn s \<le> 200 \<and> \<not> gameOver s"

text \<open>
  A store whose state object lists the same human object twice.
\<close>

definition aliasHeap :: heap where
  "aliasHeap =
     \<lparr>points = [\<lparr>p_x = 8000, p_y = 4500\<rparr>],
      humanObjs = [\<lparr>h_id = 0, h_x = 0, h_y = 0, h_alive = True, h_emoji = ''''\<rparr>],
      zombieObjs = [\<lparr>z_id = 0, z_x = 8000, z_y = 4500, z_xNext = 0, z_yNext = 0, z_alive = True\<rparr>],
      humanArrays = [[0, 0]],
      zombieArrays = [[0]],
      stateObjs = [\<lparr>o_rich = 0, o_humans = 0, o_zombies = 0, o_score = 0, o_turn = 0,
                    o_gameOver = False, o_won = False, o_message = ''''\<rparr>]\<rparr>"

definition aliasState :: game_state where
  "aliasState =
     \<lparr>rich = \<lparr>p_x = 8000, p_y = 4500\<rparr>,
      humans = [\<lparr>h_id = 0, h_x = 0, h_y = 0, h_alive = True, h_emoji = ''''\<rparr>,
                \<lparr>h_id = 0, h_x = 0, h_y = 0, h_alive = True, h_emoji = ''''\<rparr>],
      zombies = [\<lparr>z_id = 0, z_x = 8000, z_y = 4500, z_xNext = 0, z_yNext = 0, z_alive = True\<rparr>],
      score = 0, turn = 0, gameOver = False, won = False, message = ''''\<rparr>"

section \<open>Rounding to double precision\<close>

lemma roundEven_of_int [simp]: "roundEven (of_int k) = k"
  by (simp add: roundEven_def)

lemma roundEven_numeral [simp]: "roundEven (numeral n) = numeral n"
  using roundEven_of_int [of "numeral n"] by simp

lemma roundEven_lower: "y - 1 / 2 \<le> of_int (roundEven y)"
  unfolding roundEven_def Let_def by (auto; linarith)

lemma roundEven_upper: "of_int (roundEven y) \<le> y + 1 / 2"
  unfolding roundEven_def Let_def by (auto; linarith)

lemma roundEven_floor: "\<lfloor>y\<rfloor> \<le> roundEven y" "roundEven y \<le> \<lfloor>y\<rfloor> + 1"
  unfolding roundEven_def Let_def by auto

lemma roundEven_mono: "y \<le> z \<Longrightarrow> roundEven y \<le> roundEven z"
proof -
  assume yz: "y \<le> z"
  then have fl: "\<lfloor>y\<rfloor> \<le> \<lfloor>z\<rfloor>" by (rule floor_mono)
  show ?thesis
  proof (cases "\<lfloor>y\<rfloor> = \<lfloor>z\<rfloor>")
    case False
    with fl have "\<lfloor>y\<rfloor> + 1 \<le> \<lfloor>z\<rfloor>" by simp
    with roundEven_floor(2) [of y] roundEven_floor(1) [of z] show ?thesis by linarith
  next
    case True
    then show ?thesis
      using yz unfolding roundEven_def Let_def by (auto; linarith)
  qed
qed

lemma ulp_pos [simp]: "0 < ulp x"
  by (simp add: ulp_def)

lemma ulp_nonzero [simp]: "ulp x \<noteq> 0"
  by (simp add: ulp_def)

lemma ulp_nonneg [simp]: "0 \<le> ulp x"
  by (simp add: ulp_def)

lemma abs_less_expo: "x \<noteq> 0 \<Longrightarrow> \<bar>x\<bar> < 2 powr (of_int (expo x) + 1)"
proof -
  assume "x \<noteq> 0"
  then have pos: "0 < \<bar>x\<bar>" by simp
  have "log 2 \<bar>x\<bar> < of_int \<lfloor>log 2 \<bar>x\<bar>\<rfloor> + 1" by linarith
  also have "\<dots> \<le> of_int (expo x) + 1" by (simp add: expo_def)
  finally have "log 2 \<bar>x\<bar> < of_int (expo x) + 1" .
  then show ?thesis
    using pos by (simp add: log_less_iff)
qed

lemma expo_le_abs: "2 powr (- 1022) \<le> \<bar>x\<bar> \<Longrightarrow> 2 powr (of_int (expo x)) \<le> \<bar>x\<bar>"
proof -
  assume a: "2 powr (- 1022) \<le> \<bar>x\<bar>"
  have "0 < (2::real) powr (- 1022)" by simp
  with a have pos: "0 < \<bar>x\<bar>" by linarith
  from a pos have "- 1022 \<le> log 2 \<bar>x\<bar>" by (simp add: le_log_iff)
  then have "- 1022 \<le> \<lfloor>log 2 \<bar>x\<bar>\<rfloor>" by (simp add: le_floor_iff)
  then have "expo x = \<lfloor>log 2 \<bar>x\<bar>\<rfloor>" by (simp add: expo_def)
  moreover have "of_int \<lfloor>log 2 \<bar>x\<bar>\<rfloor> \<le> log 2 \<bar>x\<bar>" by simp
  ultimately have "of_int (expo x) \<le> log 2 \<bar>x\<bar>" by simp
  then show ?thesis using pos by (simp add: le_log_iff)
qed

lemma expo_small: "x \<noteq> 0 \<Longrightarrow> \<bar>x\<bar> < 2 powr (- 1022) \<Longrightarrow> expo x = - 1022"
proof -
  assume "x \<noteq> 0" and a: "\<bar>x\<bar> < 2 powr (- 1022)"
  then have "log 2 \<bar>x\<bar> < - 1022" by (simp add: log_less_iff)
  then have "\<lfloor>log 2 \<bar>x\<bar>\<rfloor> < - 1022" by (simp add: floor_less_iff)
  then show ?thesis by (simp add: expo_def)
qed

lemma expo_mono: "x \<noteq> 0 \<Longrightarrow> \<bar>x\<bar> \<le> \<bar>y\<bar> \<Longrightarrow> expo x \<le> expo y"
proof -
  assume "x \<noteq> 0" "\<bar>x\<bar> \<le> \<bar>y\<bar>"
  then have "log 2 \<bar>x\<bar> \<le> log 2 \<bar>y\<bar>" by simp
  then have "\<lfloor>log 2 \<bar>x\<bar>\<rfloor> \<le> \<lfloor>log 2 \<bar>y\<bar>\<rfloor>" by (rule floor_mono)
  then show ?thesis by (simp add: expo_def)
qed

lemma rnd_0 [simp]: "rnd 0 = 0"
  by (simp add: rnd_def)

lemma rnd_err_ulp: "\<bar>rnd x - x\<bar> \<le> ulp x / 2"
proof (cases "x = 0")
  case True
  then show ?thesis by (simp add: less_imp_le)
next
  case False
  let ?q = "ulp x"
  have q: "0 < ?q" by simp
  have "\<bar>of_int (roundEven (x / ?q)) - x / ?q\<bar> \<le> 1 / 2"
    using roundEven_lower [of "x / ?q"] roundEven_upper [of "x / ?q"] by linarith
  then have "\<bar>of_int (roundEven (x / ?q)) - x / ?q\<bar> * ?q \<le> 1 / 2 * ?q"
    using q by (intro mult_right_mono) (simp_all add: less_imp_le)
  moreover have "\<bar>of_int (roundEven (x / ?q)) - x / ?q\<bar> * ?q = \<bar>rnd x - x\<bar>"
  proof -
    have "\<bar>of_int (roundEven (x / ?q)) - x / ?q\<bar> * ?q =
        \<bar>(of_int (roundEven (x / ?q)) - x / ?q) * ?q\<bar>"
      using q by (simp add: abs_mult abs_of_pos)
    also have "(of_int (roundEven (x / ?q)) - x / ?q) * ?q = rnd x - x"
      using q False by (simp add: rnd_def left_diff_distrib)
    finally show ?thesis .
  qed
  ultimately show ?thesis by simp
qed

lemma expo_le_abs': "x \<noteq> 0 \<Longrightarrow> - 1022 < expo x \<Longrightarrow> 2 powr (of_int (expo x)) \<le> \<bar>x\<bar>"
proof -
  assume x: "x \<noteq> 0" and e: "- 1022 < expo x"
  then have "expo x = \<lfloor>log 2 \<bar>x\<bar>\<rfloor>" by (simp add: expo_def max_def split: if_splits)
  moreover have "of_int \<lfloor>log 2 \<bar>x\<bar>\<rfloor> \<le> log 2 \<bar>x\<bar>" by simp
  ultimately have "of_int (expo x) \<le> log 2 \<bar>x\<bar>" by simp
  then show ?thesis using x by (simp add: le_log_iff)
qed

lemma expo_minus [simp]: "expo (- x) = expo x"
  by (simp add: expo_def)

lemma ulp_minus [simp]: "ulp (- x) = ulp x"
  by (simp add: ulp_def)

lemma roundEven_minus: "roundEven (- y) = - roundEven y"
proof (cases "y = of_int \<lfloor>y\<rfloor>")
  case True
  then obtain k where "y = of_int k" by blast
  then have "- y = of_int (- k)" by simp
  then show ?thesis unfolding \<open>y = of_int k\<close> by (simp only: roundEven_of_int)
next
  case False
  define f where "f = \<lfloor>y\<rfloor>"
  have fl: "of_int f < y" "y < of_int f + 1"
    using False unfolding f_def by linarith+
  have nf: "\<lfloor>- y\<rfloor> = - f - 1"
    using fl by (intro floor_unique) simp_all
  show ?thesis
    unfolding roundEven_def Let_def nf f_def [symmetric]
    using fl by (auto; linarith)
qed

lemma rnd_minus: "rnd (- x) = - rnd x"
  by (simp add: rnd_def roundEven_minus)

lemma ulp_normal: "2 powr (- 1022) \<le> \<bar>x\<bar> \<Longrightarrow> ulp x \<le> \<bar>x\<bar> / 2 ^ 52"
proof -
  assume a: "2 powr (- 1022) \<le> \<bar>x\<bar>"
  have "ulp x = 2 powr (of_int (expo x)) / 2 powr 52"
    by (simp add: ulp_def powr_diff)
  also have "\<dots> \<le> \<bar>x\<bar> / 2 powr 52"
    using expo_le_abs [OF a] by (intro divide_right_mono) simp_all
  finally show ?thesis by simp
qed

lemma ulp_subnormal: "x \<noteq> 0 \<Longrightarrow> \<bar>x\<bar> < 2 powr (- 1022) \<Longrightarrow> ulp x = 2 powr (- 1074)"
  by (simp add: ulp_def expo_small)

lemma rnd_err_normal: "2 powr (- 1022) \<le> \<bar>x\<bar> \<Longrightarrow> \<bar>rnd x - x\<bar> \<le> \<bar>x\<bar> / 2 ^ 53"
  using rnd_err_ulp [of x] ulp_normal [of x] by simp

lemma rnd_err_ge1: "1 \<le> \<bar>x\<bar> \<Longrightarrow> \<bar>rnd x - x\<bar> \<le> \<bar>x\<bar> / 2 ^ 53"
proof -
  assume a: "1 \<le> \<bar>x\<bar>"
  have "(2::real) powr (- 1022) \<le> 2 powr 0"
    by (intro powr_mono) simp_all
  with a have "2 powr (- 1022) \<le> \<bar>x\<bar>" by simp
  then show ?thesis by (rule rnd_err_normal)
qed

lemma rnd_err: "\<bar>rnd x - x\<bar> \<le> \<bar>x\<bar> / 2 ^ 53 + 1 / 2 ^ 60"
proof (cases "2 powr (- 1022) \<le> \<bar>x\<bar>")
  case True
  from rnd_err_normal [OF True] show ?thesis
    by (simp add: add_increasing2)
next
  case False
  show ?thesis
  proof (cases "x = 0")
    case True
    then show ?thesis by simp
  next
    case nz: False
    have "ulp x = 2 powr (- 1074)"
      using nz False by (intro ulp_subnormal) simp_all
    moreover have "(2::real) powr (- 1074) \<le> 2 powr (- 59)"
      by (intro powr_mono) simp_all
    moreover have "(2::real) powr (- 59) = 1 / 2 ^ 59"
      by (simp add: powr_minus inverse_eq_divide)
    ultimately have "ulp x / 2 \<le> 1 / 2 ^ 60"
      by simp
    moreover have "0 \<le> \<bar>x\<bar> / 2 ^ 53"
      by simp
    ultimately show ?thesis
      using rnd_err_ulp [of x] by linarith
  qed
qed

lemma rnd_nonneg: "0 \<le> x \<Longrightarrow> 0 \<le> rnd x"
proof -
  assume "0 \<le> x"
  then have "0 \<le> x / ulp x" by simp
  then have "roundEven 0 \<le> roundEven (x / ulp x)" by (rule roundEven_mono)
  then have "0 \<le> roundEven (x / ulp x)"
    using roundEven_of_int [of 0] by simp
  then show ?thesis by (simp add: rnd_def)
qed

lemma rnd_pos_upper: "0 < x \<Longrightarrow> rnd x \<le> 2 powr (of_int (expo x) + 1)"
proof -
  assume x: "0 < x"
  then have "x < 2 powr (of_int (expo x) + 1)"
    using abs_less_expo [of x] by simp
  then have "x / ulp x \<le> 2 powr (of_int (expo x) + 1) / ulp x"
    by (intro divide_right_mono) simp_all
  also have "2 powr (of_int (expo x) + 1) / ulp x = 2 powr 53"
    by (simp add: ulp_def powr_diff [symmetric])
  also have "(2::real) powr 53 = of_int (2 ^ 53)"
    by simp
  finally have "roundEven (x / ulp x) \<le> roundEven (of_int (2 ^ 53))"
    by (rule roundEven_mono)
  then have "of_int (roundEven (x / ulp x)) \<le> (2::real) powr 53"
    by simp
  then have "of_int (roundEven (x / ulp x)) * ulp x \<le> 2 powr 53 * ulp x"
    by (intro mult_right_mono) simp_all
  also have "2 powr 53 * ulp x = 2 powr (of_int (expo x) + 1)"
    by (simp add: ulp_def powr_diff powr_add)
  finally show ?thesis
    using x by (simp add: rnd_def)
qed

lemma rnd_pos_lower:
  "0 < x \<Longrightarrow> - 1022 < expo x \<Longrightarrow> 2 powr (of_int (expo x)) \<le> rnd x"
proof -
  assume x: "0 < x" and e: "- 1022 < expo x"
  have "2 powr (of_int (expo x)) \<le> x"
    using expo_le_abs' [of x] x e by simp
  then have "2 powr (of_int (expo x)) / ulp x \<le> x / ulp x"
    by (intro divide_right_mono) simp_all
  moreover have "2 powr (of_int (expo x)) / ulp x = 2 powr 52"
    by (simp add: ulp_def powr_diff [symmetric])
  moreover have "(2::real) powr 52 = of_int (2 ^ 52)"
    by simp
  ultimately have "of_int (2 ^ 52) \<le> x / ulp x"
    by simp
  then have "roundEven (of_int (2 ^ 52)) \<le> roundEven (x / ulp x)"
    by (rule roundEven_mono)
  then have "(2::real) powr 52 \<le> of_int (roundEven (x / ulp x))"
    by simp
  then have A: "2 powr 52 * ulp x \<le> of_int (roundEven (x / ulp x)) * ulp x"
    by (intro mult_right_mono) simp_all
  have B: "2 powr 52 * ulp x = 2 powr (of_int (expo x))"
    by (simp add: ulp_def powr_diff)
  have C: "of_int (roundEven (x / ulp x)) * ulp x = rnd x"
    using x by (simp add: rnd_def)
  show ?thesis
    using A unfolding B C .
qed

lemma rnd_mono_pos:
  assumes "0 < x" and "x \<le> y"
  shows "rnd x \<le> rnd y"
proof -
  have y: "0 < y" using assms by simp
  have le: "expo x \<le> expo y"
    using assms by (intro expo_mono) simp_all
  show ?thesis
  proof (cases "expo x = expo y")
    case True
    then have q: "ulp y = ulp x" by (simp add: ulp_def)
    have "x / ulp x \<le> y / ulp x"
      using assms(2) by (intro divide_right_mono) simp_all
    then have "roundEven (x / ulp x) \<le> roundEven (y / ulp x)"
      by (rule roundEven_mono)
    then have "of_int (roundEven (x / ulp x)) * ulp x \<le> of_int (roundEven (y / ulp x)) * ulp x"
      by (intro mult_right_mono) simp_all
    then show ?thesis
      using assms(1) y by (simp add: rnd_def q)
  next
    case False
    with le have lt: "expo x + 1 \<le> expo y" by simp
    have "- 1022 \<le> expo x" by (simp add: expo_def)
    with lt have "- 1022 < expo y" by simp
    then have "2 powr (of_int (expo y)) \<le> rnd y"
      using y by (intro rnd_pos_lower)
    moreover have "rnd x \<le> 2 powr (of_int (expo x) + 1)"
      using assms(1) by (rule rnd_pos_upper)
    moreover have "(2::real) powr (of_int (expo x) + 1) \<le> 2 powr (of_int (expo y))"
    proof -
      have "real_of_int (expo x + 1) \<le> real_of_int (expo y)"
        using lt by (simp only: of_int_le_iff)
      then show ?thesis
        by (intro powr_mono) simp_all
    qed
    ultimately show ?thesis by linarith
  qed
qed

lemma rnd_mono: "x \<le> y \<Longrightarrow> rnd x \<le> rnd y"
proof -
  assume xy: "x \<le> y"
  consider "0 < x" | "x \<le> 0" "0 \<le> y" | "y < 0" by linarith
  then show ?thesis
  proof cases
    case 1
    then show ?thesis using xy by (rule rnd_mono_pos)
  next
    case 2
    have "rnd x \<le> 0"
      using rnd_nonneg [of "- x"] 2(1) by (simp add: rnd_minus)
    moreover have "0 \<le> rnd y"
      using 2(2) by (rule rnd_nonneg)
    ultimately show ?thesis by linarith
  next
    case 3
    then have "rnd (- y) \<le> rnd (- x)"
      using xy by (intro rnd_mono_pos) simp_all
    then show ?thesis by (simp add: rnd_minus)
  qed
qed

lemma rnd_of_int:
  assumes "\<bar>k\<bar> < 2 ^ 53"
  shows "rnd (of_int k) = of_int k"
proof (cases "k = 0")
  case True
  then show ?thesis by simp
next
  case False
  let ?x = "real_of_int k"
  have x1: "1 \<le> \<bar>?x\<bar>"
    using False by (metis abs_ge_zero abs_zero eq_iff_diff_eq_0 int_one_le_iff_zero_less
        le_less of_int_1_le_iff of_int_abs zero_less_abs_iff)
  have x2: "\<bar>?x\<bar> < 2 powr 53"
  proof -
    have "real_of_int \<bar>k\<bar> < real_of_int (2 ^ 53)"
      using assms by (simp only: of_int_less_iff)
    then show ?thesis by simp
  qed
  have "0 \<le> log 2 \<bar>?x\<bar>"
    using x1 by simp
  then have e0: "0 \<le> \<lfloor>log 2 \<bar>?x\<bar>\<rfloor>"
    by simp
  have "log 2 \<bar>?x\<bar> < 53"
    using x1 x2 by (simp add: log_less_iff)
  then have e53: "\<lfloor>log 2 \<bar>?x\<bar>\<rfloor> \<le> 52"
    by (simp add: floor_less_iff less_eq[symmetric])
  define n where "n = nat (52 - \<lfloor>log 2 \<bar>?x\<bar>\<rfloor>)"
  have e: "expo ?x = 52 - int n"
    using e0 e53 by (simp add: expo_def n_def)
  have q: "ulp ?x = 1 / 2 ^ n"
    by (simp add: ulp_def e powr_minus powr_realpow inverse_eq_divide)
  have "?x / ulp ?x = of_int (k * 2 ^ n)"
    by (simp add: q)
  then have "roundEven (?x / ulp ?x) = k * 2 ^ n"
    by (simp only: roundEven_of_int)
  then show ?thesis
    using False by (simp add: rnd_def q)
qed

lemma rnd_numeral: "(numeral n :: int) < 2 ^ 53 \<Longrightarrow> rnd (numeral n) = numeral n"
  using rnd_of_int [of "numeral n"] by simp

lemma rnd_1 [simp]: "rnd 1 = 1"
  using rnd_of_int [of 1] by simp

lemma rnd_Ints: "x \<in> \<int> \<Longrightarrow> \<bar>x\<bar> < 2 ^ 53 \<Longrightarrow> rnd x = x"
proof -
  assume "x \<in> \<int>" and b: "\<bar>x\<bar> < 2 ^ 53"
  then obtain k where k: "x = of_int k" by (auto elim: Ints_cases)
  have "real_of_int \<bar>k\<bar> < real_of_int (2 ^ 53)"
    using b unfolding k by simp
  then have "\<bar>k\<bar> < 2 ^ 53" by (simp only: of_int_less_iff)
  then show ?thesis unfolding k by (rule rnd_of_int)
qed

lemma rnd_le_Ints: "x \<le> r \<Longrightarrow> r \<in> \<int> \<Longrightarrow> \<bar>r\<bar> < 2 ^ 53 \<Longrightarrow> rnd x \<le> r"
  using rnd_mono [of x r] rnd_Ints [of r] by simp

lemma rnd_ge_Ints: "r \<le> x \<Longrightarrow> r \<in> \<int> \<Longrightarrow> \<bar>r\<bar> < 2 ^ 53 \<Longrightarrow> r \<le> rnd x"
  using rnd_mono [of r x] rnd_Ints [of r] by simp

lemma roundEven_eval: "\<bar>y - of_int k\<bar> < 1 / 2 \<Longrightarrow> roundEven y = k"
  using roundEven_lower [of y] roundEven_upper [of y] by linarith

lemma powr_neg_nat: "(2::real) powr (- real k) = 1 / 2 ^ k"
  by (simp add: powr_minus powr_realpow divide_simps)

lemma expo_eq:
  assumes "2 powr of_int e \<le> \<bar>x\<bar>" and "\<bar>x\<bar> < 2 powr (of_int e + 1)" and "- 1022 \<le> e"
  shows "expo x = e"
proof -
  have "0 < (2::real) powr of_int e" by simp
  then have pos: "0 < \<bar>x\<bar>" using assms(1) by linarith
  have "\<lfloor>log 2 \<bar>x\<bar>\<rfloor> = e"
    using pos assms(1,2) by (simp add: floor_log_eq_powr_iff)
  then show ?thesis using assms(3) by (simp add: expo_def)
qed

lemma rnd_binade_up:
  assumes "2 ^ n \<le> \<bar>x\<bar>" and "\<bar>x\<bar> < 2 * 2 ^ n" and "n \<le> 52"
  shows "rnd x = of_int (roundEven (x * 2 ^ (52 - n))) / 2 ^ (52 - n)"
proof -
  have e: "expo x = int n"
    using assms(1,2) by (intro expo_eq) (simp_all add: powr_realpow powr_add)
  have "ulp x = 2 powr (- real (52 - n))"
    using assms(3) by (simp add: ulp_def e of_nat_diff)
  also have "\<dots> = 1 / 2 ^ (52 - n)"
    by (simp add: powr_minus powr_realpow divide_simps)
  finally have u: "ulp x = 1 / 2 ^ (52 - n)" .
  have "(0::real) < 2 ^ n" by simp
  also have "\<dots> \<le> \<bar>x\<bar>" by (rule assms(1))
  finally have "x \<noteq> 0" by simp
  then show ?thesis by (simp add: rnd_def u)
qed

lemma rnd_binade_down:
  assumes "1 \<le> \<bar>x\<bar> * 2 ^ n" and "\<bar>x\<bar> * 2 ^ n < 2" and "n \<le> 1022"
  shows "rnd x = of_int (roundEven (x * 2 ^ (52 + n))) / 2 ^ (52 + n)"
proof -
  have p: "(2::real) powr (- real n) = 1 / 2 ^ n"
    by (simp add: powr_minus powr_realpow divide_simps)
  have q: "(2::real) powr (1 - real n) = 2 / 2 ^ n"
    by (simp add: powr_diff powr_realpow)
  have e: "expo x = - int n"
    using assms by (intro expo_eq) (simp_all add: p q add.commute field_simps)
  have "ulp x = 2 powr (- real (52 + n))"
    by (simp add: ulp_def e algebra_simps)
  also have "\<dots> = 1 / 2 ^ (52 + n)"
    by (rule powr_neg_nat)
  finally have u: "ulp x = 1 / 2 ^ (52 + n)" .
  have "x \<noteq> 0" using assms(1) by auto
  then show ?thesis by (simp add: rnd_def u)
qed

section \<open>Evaluating distances\<close>

lemma rnd_ge1_upper: "1 \<le> x \<Longrightarrow> rnd x \<le> x * (1 + 1 / 2 ^ 53)"
proof -
  assume x: "1 \<le> x"
  have "\<bar>rnd x - x\<bar> \<le> \<bar>x\<bar> / 2 ^ 53" using x by (intro rnd_err_ge1) simp
  then have "rnd x - x \<le> x / 2 ^ 53" using x by linarith
  then show ?thesis by (simp add: algebra_simps)
qed

lemma rnd_ge1_lower: "1 \<le> x \<Longrightarrow> x * (1 - 1 / 2 ^ 53) \<le> rnd x"
proof -
  assume x: "1 \<le> x"
  have "\<bar>rnd x - x\<bar> \<le> \<bar>x\<bar> / 2 ^ 53" using x by (intro rnd_err_ge1) simp
  then have "x - rnd x \<le> x / 2 ^ 53" using x by linarith
  then show ?thesis by (simp add: algebra_simps)
qed

lemma sqrt_sep:
  assumes "1 \<le> m" and "m + 1 \<le> n" and "m \<le> 2 ^ 43"
  shows "sqrt m * (1 + 1 / 2 ^ 53) < sqrt n * (1 - 1 / 2 ^ 53)"
proof -
  let ?A = "1 + 1 / 2 ^ 53 :: real" and ?B = "1 - 1 / 2 ^ 53 :: real"
  have A: "0 < ?A" and B: "0 < ?B" by simp_all
  have "m * ?A\<^sup>2 < (m + 1) * ?B\<^sup>2"
    using assms(1,3) by (simp add: power2_eq_square field_simps)
  also have "\<dots> \<le> n * ?B\<^sup>2"
    using assms(2) by (intro mult_right_mono) simp_all
  finally have "sqrt (m * ?A\<^sup>2) < sqrt (n * ?B\<^sup>2)"
    by (rule real_sqrt_less_mono)
  then show ?thesis
    using A B by (simp only: real_sqrt_mult real_sqrt_abs abs_of_pos)
qed

lemma rnd_sqrt_less:
  assumes "0 \<le> m" and "m + 1 \<le> n" and "m \<le> 2 ^ 43" and "m \<in> \<int>"
  shows "rnd (sqrt m) < rnd (sqrt n)"
proof (cases "m = 0")
  case True
  have "1 \<le> sqrt n" using assms True by simp
  then have "1 \<le> rnd (sqrt n)" by (intro rnd_ge_Ints) simp_all
  then show ?thesis using True by simp
next
  case False
  obtain k where k: "m = of_int k" using assms(4) by (auto elim: Ints_cases)
  have "0 < k" using False assms(1) unfolding k by simp
  then have "1 \<le> k" by simp
  then have m1: "1 \<le> m" unfolding k by simp
  then have s1: "1 \<le> sqrt m" "1 \<le> sqrt n"
    using assms(2) by simp_all
  have "rnd (sqrt m) \<le> sqrt m * (1 + 1 / 2 ^ 53)"
    using s1(1) by (rule rnd_ge1_upper)
  also have "\<dots> < sqrt n * (1 - 1 / 2 ^ 53)"
    using m1 assms(2,3) by (rule sqrt_sep)
  also have "\<dots> \<le> rnd (sqrt n)"
    using s1(2) by (rule rnd_ge1_lower)
  finally show ?thesis .
qed

lemma rnd_sqrt_le_iff:
  assumes "n \<in> \<int>" and "0 \<le> n" and "r \<in> \<int>" and "0 \<le> r" and "r \<le> 2 ^ 21"
  shows "rnd (sqrt n) \<le> r \<longleftrightarrow> n \<le> r\<^sup>2"
proof
  assume "n \<le> r\<^sup>2"
  then have "sqrt n \<le> r" using assms(2,4) by (simp add: real_le_lsqrt)
  then show "rnd (sqrt n) \<le> r"
    using assms(3,5) assms(4) by (intro rnd_le_Ints) simp_all
next
  assume le: "rnd (sqrt n) \<le> r"
  show "n \<le> r\<^sup>2"
  proof (rule ccontr)
    assume "\<not> n \<le> r\<^sup>2"
    then have lt: "r\<^sup>2 < n" by simp
    obtain k where k: "n = of_int k" using assms(1) by (auto elim: Ints_cases)
    obtain j where j: "r = of_int j" using assms(3) by (auto elim: Ints_cases)
    have "real_of_int (j\<^sup>2) < real_of_int k" using lt unfolding k j by simp
    then have "j\<^sup>2 < k" by (simp only: of_int_less_iff)
    then have "j\<^sup>2 + 1 \<le> k" by simp
    then have "real_of_int (j\<^sup>2 + 1) \<le> real_of_int k" by (simp only: of_int_le_iff)
    then have step: "r\<^sup>2 + 1 \<le> n" unfolding k j by simp
    have "r\<^sup>2 \<le> (2 ^ 21)\<^sup>2"
      using assms(4,5) by (intro power_mono) simp_all
    then have small: "r\<^sup>2 \<le> 2 ^ 43" by simp
    have "rnd (sqrt (r\<^sup>2)) < rnd (sqrt n)"
      using step small assms(3) by (intro rnd_sqrt_less) simp_all
    moreover have "rnd (sqrt (r\<^sup>2)) = r"
      using assms(3,4,5) by (simp add: rnd_Ints)
    ultimately show False using le by simp
  qed
qed

lemma rnd_sqrt_less_iff:
  assumes "m \<in> \<int>" and "0 \<le> m" and "m \<le> 2 ^ 43" and "n \<in> \<int>" and "0 \<le> n"
  shows "rnd (sqrt m) < rnd (sqrt n) \<longleftrightarrow> m < n"
proof
  assume lt: "m < n"
  obtain k where k: "n = of_int k" using assms(4) by (auto elim: Ints_cases)
  obtain j where j: "m = of_int j" using assms(1) by (auto elim: Ints_cases)
  have "j < k" using lt unfolding k j by simp
  then have "j + 1 \<le> k" by simp
  then have "real_of_int (j + 1) \<le> real_of_int k" by (simp only: of_int_le_iff)
  then have "m + 1 \<le> n" unfolding k j by simp
  then show "rnd (sqrt m) < rnd (sqrt n)"
    using assms by (intro rnd_sqrt_less) simp_all
next
  assume lt: "rnd (sqrt m) < rnd (sqrt n)"
  show "m < n"
  proof (rule ccontr)
    assume "\<not> m < n"
    then have "sqrt n \<le> sqrt m" by simp
    then have "rnd (sqrt n) \<le> rnd (sqrt m)" by (rule rnd_mono)
    then show False using lt by simp
  qed
qed

lemma rnd_sqrt_le_rnd_sqrt_iff:
  assumes "m \<in> \<int>" and "0 \<le> m" and "n \<le> 2 ^ 43" and "n \<in> \<int>" and "0 \<le> n"
  shows "rnd (sqrt m) \<le> rnd (sqrt n) \<longleftrightarrow> m \<le> n"
  using rnd_sqrt_less_iff [of n m] assms by (simp add: not_less [symmetric])

lemma sq_bound: "\<bar>x\<bar> \<le> 2 ^ 21 \<Longrightarrow> x\<^sup>2 \<le> (2 ^ 42 :: real)"
proof -
  assume "\<bar>x\<bar> \<le> 2 ^ 21"
  then have "\<bar>x\<bar>\<^sup>2 \<le> (2 ^ 21)\<^sup>2" by (intro power_mono) simp_all
  then show ?thesis by simp
qed

lemma distance_int:
  assumes "a \<in> \<int>" "b \<in> \<int>" "c \<in> \<int>" "d \<in> \<int>" "\<bar>c - a\<bar> \<le> 2 ^ 21" "\<bar>d - b\<bar> \<le> 2 ^ 21"
  shows "distance a b c d = rnd (euclid a b c d)"
proof -
  have x: "rnd (c - a) = c - a" using assms by (intro rnd_Ints) simp_all
  have y: "rnd (d - b) = d - b" using assms by (intro rnd_Ints) simp_all
  have bx: "(c - a)\<^sup>2 \<le> 2 ^ 42" using assms(5) by (rule sq_bound)
  have bY: "(d - b)\<^sup>2 \<le> 2 ^ 42" using assms(6) by (rule sq_bound)
  have x2: "rnd ((c - a)\<^sup>2) = (c - a)\<^sup>2" using assms bx by (intro rnd_Ints) simp_all
  have y2: "rnd ((d - b)\<^sup>2) = (d - b)\<^sup>2" using assms bY by (intro rnd_Ints) simp_all
  have s: "rnd ((c - a)\<^sup>2 + (d - b)\<^sup>2) = (c - a)\<^sup>2 + (d - b)\<^sup>2"
    using assms bx bY by (intro rnd_Ints) simp_all
  show ?thesis by (simp only: distance_def euclid_def x y x2 y2 s)
qed

lemma sumsq_facts:
  fixes a b c d :: real
  assumes "a \<in> \<int>" "b \<in> \<int>" "c \<in> \<int>" "d \<in> \<int>" "\<bar>c - a\<bar> \<le> 2 ^ 21" "\<bar>d - b\<bar> \<le> 2 ^ 21"
  shows "(c - a)\<^sup>2 + (d - b)\<^sup>2 \<in> \<int>" "0 \<le> (c - a)\<^sup>2 + (d - b)\<^sup>2"
    "(c - a)\<^sup>2 + (d - b)\<^sup>2 \<le> 2 ^ 43"
proof -
  show "(c - a)\<^sup>2 + (d - b)\<^sup>2 \<in> \<int>" using assms by simp
  show "0 \<le> (c - a)\<^sup>2 + (d - b)\<^sup>2" by simp
  show "(c - a)\<^sup>2 + (d - b)\<^sup>2 \<le> 2 ^ 43"
    using sq_bound [OF assms(5)] sq_bound [OF assms(6)] by simp
qed

lemma distance_le_iff:
  assumes "a \<in> \<int>" "b \<in> \<int>" "c \<in> \<int>" "d \<in> \<int>" "\<bar>c - a\<bar> \<le> 2 ^ 21" "\<bar>d - b\<bar> \<le> 2 ^ 21"
    and "r \<in> \<int>" "0 \<le> r" "r \<le> 2 ^ 21"
  shows "distance a b c d \<le> r \<longleftrightarrow> (c - a)\<^sup>2 + (d - b)\<^sup>2 \<le> r\<^sup>2"
  unfolding distance_int [OF assms(1-6)] euclid_def
  using sumsq_facts [OF assms(1-6)] assms(7-9) by (intro rnd_sqrt_le_iff)

lemma distance_less_distance_iff:
  assumes "a \<in> \<int>" "b \<in> \<int>" "c \<in> \<int>" "d \<in> \<int>" "\<bar>c - a\<bar> \<le> 2 ^ 21" "\<bar>d - b\<bar> \<le> 2 ^ 21"
    and "a' \<in> \<int>" "b' \<in> \<int>" "c' \<in> \<int>" "d' \<in> \<int>" "\<bar>c' - a'\<bar> \<le> 2 ^ 21" "\<bar>d' - b'\<bar> \<le> 2 ^ 21"
  shows "distance a b c d < distance a' b' c' d'
     \<longleftrightarrow> (c - a)\<^sup>2 + (d - b)\<^sup>2 < (c' - a')\<^sup>2 + (d' - b')\<^sup>2"
  unfolding distance_int [OF assms(1-6)] distance_int [OF assms(7-12)] euclid_def
  using sumsq_facts [OF assms(1-6)] sumsq_facts [OF assms(7-12)] by (intro rnd_sqrt_less_iff)

lemma distance_le_distance_iff:
  assumes "a \<in> \<int>" "b \<in> \<int>" "c \<in> \<int>" "d \<in> \<int>" "\<bar>c - a\<bar> \<le> 2 ^ 21" "\<bar>d - b\<bar> \<le> 2 ^ 21"
    and "a' \<in> \<int>" "b' \<in> \<int>" "c' \<in> \<int>" "d' \<in> \<int>" "\<bar>c' - a'\<bar> \<le> 2 ^ 21" "\<bar>d' - b'\<bar> \<le> 2 ^ 21"
  shows "distance a b c d \<le> distance a' b' c' d'
     \<longleftrightarrow> (c - a)\<^sup>2 + (d - b)\<^sup>2 \<le> (c' - a')\<^sup>2 + (d' - b')\<^sup>2"
  unfolding distance_int [OF assms(1-6)] distance_int [OF assms(7-12)] euclid_def
  using sumsq_facts [OF assms(1-6)] sumsq_facts [OF assms(7-12)]
  by (intro rnd_sqrt_le_rnd_sqrt_iff)

lemma distance_vertical:
  assumes "a \<in> \<int>" "b \<in> \<int>" "\<bar>b - a\<bar> \<le> 2 ^ 21"
  shows "distance 0 a 0 b = \<bar>b - a\<bar>"
proof -
  have "distance 0 a 0 b = rnd (euclid 0 a 0 b)"
    using assms by (intro distance_int) simp_all
  also have "euclid 0 a 0 b = \<bar>b - a\<bar>" by (simp add: euclid_def)
  also have "rnd \<bar>b - a\<bar> = \<bar>b - a\<bar>"
    using assms by (intro rnd_Ints) simp_all
  finally show ?thesis .
qed

lemma distance_nonneg [simp]: "0 \<le> distance a b c d"
  unfolding distance_def
  by (intro rnd_nonneg real_sqrt_ge_zero add_nonneg_nonneg) simp_all

lemmas phase_eval =
  movedZombies_def richAfter_def survivingZombies_def killsThisTurn_def aliveHumansOf_def
  inRange_def moveZombie_def updateNext_def findClosestHuman_def
  moveTowards_def eatHuman_def Let_def distance_le_iff distance_less_distance_iff
  RICH_SPEED_def RICH_RANGE_def ZOMBIE_SPEED_def

section \<open>The phases of a turn\<close>

lemma killZombies_fst:
  "fst (killZombies r a zs (k, sc)) =
     map (\<lambda>z. if inRange r z then z\<lparr>z_alive := False\<rparr> else z) zs"
  by (induction zs arbitrary: k sc) (simp_all add: inRange_def Let_def case_prod_beta)

lemma killZombies_count:
  "fst (snd (killZombies r a zs (k, sc))) = k + length (filter (inRange r) zs)"
  by (induction zs arbitrary: k sc) (simp_all add: inRange_def Let_def case_prod_beta)

lemma killZombies_score:
  "snd (snd (killZombies r a zs (k, sc))) =
     sc + (\<Sum>i<length (filter (inRange r) zs). int a * int a * 10 * fibonacci (k + i))"
proof (induction zs arbitrary: k sc)
  case Nil
  then show ?case by simp
next
  case (Cons z zs)
  show ?case
  proof (cases "inRange r z")
    case True
    then show ?thesis
      using Cons.IH [of "k + 1"]
      by (simp add: inRange_def Let_def case_prod_beta sum.lessThan_Suc_shift
            del: sum.lessThan_Suc)
  next
    case False
    then show ?thesis
      using Cons.IH [of k sc]
      by (simp add: inRange_def Let_def case_prod_beta)
  qed
qed

lemma checkEnd_fields [simp]:
  "humans (checkEnd s) = humans s"
  "zombies (checkEnd s) = zombies s"
  "rich (checkEnd s) = rich s"
  "score (checkEnd s) = score s"
  "turn (checkEnd s) = turn s"
  by (simp_all add: checkEnd_def Let_def)

lemma z_alive_updateNext [simp]: "z_alive (updateNext hs r z) = z_alive z"
  by (simp add: updateNext_def Let_def)

lemma z_pos_updateNext [simp]:
  "z_x (updateNext hs r z) = z_x z" "z_y (updateNext hs r z) = z_y z"
  "z_id (updateNext hs r z) = z_id z"
  by (simp_all add: updateNext_def Let_def)

lemma z_alive_moveZombie [simp]: "z_alive (moveZombie hs r z) = z_alive z"
  by (simp add: moveZombie_def Let_def)

lemma simulateTurn_turn: "turn (simulateTurn s tx ty) = turn s + 1"
  by (simp add: simulateTurn_def Let_def case_prod_beta)

lemma simulateTurn_rich: "rich (simulateTurn s tx ty) = richAfter s tx ty"
  by (simp add: simulateTurn_def richAfter_def Let_def case_prod_beta)

lemma simulateTurn_humans:
  "humans (simulateTurn s tx ty) = eatHumans (survivingZombies s tx ty) (humans s)"
  by (simp add: simulateTurn_def richAfter_def survivingZombies_def movedZombies_def
        killZombies_fst Let_def case_prod_beta)

lemma simulateTurn_zombies:
  "zombies (simulateTurn s tx ty) =
     map (updateNext (humans (simulateTurn s tx ty)) (richAfter s tx ty))
       (survivingZombies s tx ty)"
  by (simp add: simulateTurn_def richAfter_def survivingZombies_def movedZombies_def
        killZombies_fst Let_def case_prod_beta)

lemma simulateTurn_score:
  "score (simulateTurn s tx ty) =
     score s + (\<Sum>i<killsThisTurn s tx ty.
                  int (aliveHumansOf s) * int (aliveHumansOf s) * 10 * fibonacci i)"
  by (simp add: simulateTurn_def richAfter_def killsThisTurn_def movedZombies_def
        aliveHumansOf_def killZombies_score Let_def case_prod_beta)

lemma simulateTurn_checkEnd:
  "\<exists>s6. simulateTurn s tx ty = checkEnd s6 \<and> gameOver s6 = gameOver s \<and> won s6 = won s
      \<and> message s6 = message s"
  unfolding simulateTurn_def Let_def case_prod_beta
  by (rule exI, rule conjI, rule refl) simp

lemma eatHumans_Nil: "eatHumans zs [] = []"
  by (induction zs) simp_all

lemma filter_alive_updateNext:
  "filter z_alive (map (updateNext hs r) zs) = map (updateNext hs r) (filter z_alive zs)"
  by (simp add: filter_map comp_def)

lemma simulateTurn_aliveZombies:
  "filter z_alive (zombies (simulateTurn s tx ty)) = [] \<longleftrightarrow>
     filter z_alive (survivingZombies s tx ty) = []"
  by (simp add: simulateTurn_zombies filter_alive_updateNext)

lemma simulateTurn_gameOver:
  "gameOver (simulateTurn s tx ty) \<longleftrightarrow>
     filter z_alive (zombies (simulateTurn s tx ty)) = [] \<or>
     filter h_alive (humans (simulateTurn s tx ty)) = [] \<or> gameOver s"
proof -
  obtain s6 where s6: "simulateTurn s tx ty = checkEnd s6" "gameOver s6 = gameOver s"
    using simulateTurn_checkEnd by blast
  show ?thesis
    unfolding s6(1) using s6(2) by (auto simp add: checkEnd_def Let_def)
qed

lemma simulateTurn_won:
  "won (simulateTurn s tx ty) \<longleftrightarrow>
     filter h_alive (humans (simulateTurn s tx ty)) \<noteq> [] \<and>
     (filter z_alive (zombies (simulateTurn s tx ty)) = [] \<or> won s)"
proof -
  obtain s6 where s6: "simulateTurn s tx ty = checkEnd s6" "won s6 = won s"
    using simulateTurn_checkEnd by blast
  show ?thesis
    unfolding s6(1) using s6(2) by (auto simp add: checkEnd_def Let_def)
qed

lemma fibs_pos: "x \<in> set fibs \<Longrightarrow> 0 < x"
  by (auto simp: fibs_def)

lemma fibonacci_pos: "0 < fibonacci n"
  unfolding fibonacci_def
  by (rule fibs_pos, rule nth_mem) (simp add: fibs_def)

lemma fibonacci_table:
  "fibonacci n = [1, 2, 3, 5, 8, 13, 21, 34, 55, 89, 144, 233, 377, 610, 987] ! min n 14"
proof -
  have "length fibs - 1 = 14"
    by (simp add: fibs_def)
  then show ?thesis
    by (simp only: fibonacci_def) (simp only: fibs_def)
qed

lemma eatHuman_fields [simp]:
  "h_id (eatHuman z h) = h_id h" "h_x (eatHuman z h) = h_x h" "h_y (eatHuman z h) = h_y h"
  "h_emoji (eatHuman z h) = h_emoji h"
  by (simp_all add: eatHuman_def)

lemma eatHuman_alive: "h_alive (eatHuman z h) \<Longrightarrow> h_alive h"
  by (simp add: eatHuman_def split: if_splits)

lemma eatHuman_dead [simp]: "\<not> h_alive h \<Longrightarrow> eatHuman z h = h"
  by (simp add: eatHuman_def)

lemma length_eatHumans [simp]: "length (eatHumans zs hs) = length hs"
  by (induction zs arbitrary: hs) simp_all

lemma eatHumans_dead:
  "i < length hs \<Longrightarrow> \<not> h_alive (hs ! i) \<Longrightarrow> eatHumans zs hs ! i = hs ! i"
  by (induction zs arbitrary: hs) simp_all

lemma eatHumans_position:
  "i < length hs \<Longrightarrow>
     h_id (eatHumans zs hs ! i) = h_id (hs ! i) \<and> h_x (eatHumans zs hs ! i) = h_x (hs ! i) \<and>
     h_y (eatHumans zs hs ! i) = h_y (hs ! i) \<and> h_emoji (eatHumans zs hs ! i) = h_emoji (hs ! i)"
  by (induction zs arbitrary: hs) simp_all

lemma eatHumans_eats:
  "z \<in> set zs \<Longrightarrow> z_alive z \<Longrightarrow> i < length hs \<Longrightarrow>
   distance (z_x z) (z_y z) (h_x (hs ! i)) (h_y (hs ! i)) \<le> 400 \<Longrightarrow>
   \<not> h_alive (eatHumans zs hs ! i)"
proof (induction zs arbitrary: hs)
  case Nil
  then show ?case by simp
next
  case (Cons a zs)
  show ?case
  proof (cases "z = a")
    case True
    have "\<not> h_alive (map (eatHuman a) hs ! i)"
      using Cons.prems True by (simp add: eatHuman_def)
    then have "eatHumans zs (map (eatHuman a) hs) ! i = map (eatHuman a) hs ! i"
      using Cons.prems(3) by (intro eatHumans_dead) simp_all
    with \<open>\<not> h_alive (map (eatHuman a) hs ! i)\<close> show ?thesis
      using Cons.prems True by simp
  next
    case False
    then have z: "z \<in> set zs" using Cons.prems by simp
    show ?thesis
    proof (cases "z_alive a")
      case True
      have "\<not> h_alive (eatHumans zs (map (eatHuman a) hs) ! i)"
        using Cons.prems by (intro Cons.IH [OF z]) simp_all
      then show ?thesis using True by simp
    next
      case False
      then show ?thesis using Cons.IH [OF z Cons.prems(2,3,4)] by simp
    qed
  qed
qed

lemma eatHumans_filter: "eatHumans (filter z_alive zs) hs = eatHumans zs hs"
  by (induction zs arbitrary: hs) simp_all

lemma length_survivingZombies [simp]: "length (survivingZombies s tx ty) = length (zombies s)"
  by (simp add: survivingZombies_def movedZombies_def)

lemma moveZombie_dead [simp]: "\<not> z_alive z \<Longrightarrow> moveZombie hs r z = z"
  by (simp add: moveZombie_def)

lemma updateNext_dead [simp]: "\<not> z_alive z \<Longrightarrow> updateNext hs r z = z"
  by (simp add: updateNext_def)

lemma survivingZombies_nth:
  "i < length (zombies s) \<Longrightarrow>
     survivingZombies s tx ty ! i =
       (let z = moveZombie (humans s) (rich s) (zombies s ! i)
        in if inRange (richAfter s tx ty) z then z\<lparr>z_alive := False\<rparr> else z)"
  by (simp add: survivingZombies_def movedZombies_def Let_def)

lemma survivingZombies_dead:
  "i < length (zombies s) \<Longrightarrow> \<not> z_alive (zombies s ! i) \<Longrightarrow>
     survivingZombies s tx ty ! i = zombies s ! i"
  by (simp add: survivingZombies_nth inRange_def)

lemma survivingZombies_alive:
  "i < length (zombies s) \<Longrightarrow> z_alive (survivingZombies s tx ty ! i) \<Longrightarrow>
     z_alive (zombies s ! i)"
  by (simp add: survivingZombies_nth inRange_def Let_def split: if_splits)

lemma length_simulateTurn [simp]:
  "length (humans (simulateTurn s tx ty)) = length (humans s)"
  "length (zombies (simulateTurn s tx ty)) = length (zombies s)"
  by (simp_all add: simulateTurn_humans simulateTurn_zombies)

lemma simulateTurn_zombie_nth:
  "i < length (zombies s) \<Longrightarrow>
     zombies (simulateTurn s tx ty) ! i =
       updateNext (humans (simulateTurn s tx ty)) (richAfter s tx ty)
         (survivingZombies s tx ty ! i)"
  by (subst simulateTurn_zombies) simp

lemma movedZombies_alive: "map z_alive (movedZombies s) = map z_alive (zombies s)"
  by (simp add: movedZombies_def)

lemma simulateTurn_alive_flags:
  "map z_alive (zombies (simulateTurn s tx ty)) = map z_alive (survivingZombies s tx ty)"
  by (simp add: simulateTurn_zombies)

lemma inRange_fun:
  "inRange r = (\<lambda>z. z_alive z \<and> distance (p_x r) (p_y r) (z_x z) (z_y z) \<le> RICH_RANGE)"
  by (rule ext) (simp add: inRange_def)

section \<open>The concrete worlds after a turn\<close>

lemma coincidentNoHumans_surviving:
  "survivingZombies coincidentNoHumans 8000 4500 =
     [\<lparr>z_id = 0, z_x = 8000, z_y = 4500, z_xNext = 0, z_yNext = 0, z_alive = False\<rparr>]"
  by (simp add: coincidentNoHumans_def phase_eval)

lemma coincidentOneHuman_surviving:
  "survivingZombies coincidentOneHuman 8000 4500 =
     [\<lparr>z_id = 0, z_x = 8000, z_y = 4500, z_xNext = 0, z_yNext = 0, z_alive = False\<rparr>]"
  by (simp add: coincidentOneHuman_def phase_eval)

lemma packWorld_moved:
  "movedZombies packWorld =
     [\<lparr>z_id = 0, z_x = 8000, z_y = 4500, z_xNext = 0, z_yNext = 0, z_alive = True\<rparr>,
      \<lparr>z_id = 1, z_x = 8000, z_y = 4500, z_xNext = 0, z_yNext = 0, z_alive = True\<rparr>,
      \<lparr>z_id = 2, z_x = 1000, z_y = 1000, z_xNext = 0, z_yNext = 0, z_alive = True\<rparr>,
      \<lparr>z_id = 3, z_x = 1000, z_y = 1000, z_xNext = 7, z_yNext = 9, z_alive = False\<rparr>]"
  by (simp add: packWorld_def phase_eval)

lemma packWorld_rich: "richAfter packWorld 8000 4500 = \<lparr>p_x = 8000, p_y = 4500\<rparr>"
  by (simp add: packWorld_def phase_eval)

lemma packWorld_surviving:
  "survivingZombies packWorld 8000 4500 =
     [\<lparr>z_id = 0, z_x = 8000, z_y = 4500, z_xNext = 0, z_yNext = 0, z_alive = False\<rparr>,
      \<lparr>z_id = 1, z_x = 8000, z_y = 4500, z_xNext = 0, z_yNext = 0, z_alive = False\<rparr>,
      \<lparr>z_id = 2, z_x = 1000, z_y = 1000, z_xNext = 0, z_yNext = 0, z_alive = True\<rparr>,
      \<lparr>z_id = 3, z_x = 1000, z_y = 1000, z_xNext = 7, z_yNext = 9, z_alive = False\<rparr>]"
  unfolding survivingZombies_def packWorld_moved packWorld_rich
  by (simp add: inRange_def distance_le_iff RICH_RANGE_def)

lemma packWorld_kills: "killsThisTurn packWorld 8000 4500 = 2"
  unfolding killsThisTurn_def packWorld_moved packWorld_rich
  by (simp add: inRange_def distance_le_iff RICH_RANGE_def)

lemma packWorld_humans:
  "humans (simulateTurn packWorld 8000 4500) =
     [\<lparr>h_id = 0, h_x = 1000, h_y = 1000, h_alive = False, h_emoji = ''''\<rparr>,
      \<lparr>h_id = 1, h_x = 1240, h_y = 1320, h_alive = False, h_emoji = ''''\<rparr>,
      \<lparr>h_id = 2, h_x = 15000, h_y = 8000, h_alive = True, h_emoji = ''''\<rparr>,
      \<lparr>h_id = 3, h_x = 8000, h_y = 4600, h_alive = False, h_emoji = ''''\<rparr>]"
  unfolding simulateTurn_humans packWorld_surviving
  by (simp add: packWorld_def eatHuman_def distance_le_iff)

lemma packWorld_score: "score (simulateTurn packWorld 8000 4500) = 270"
  unfolding simulateTurn_score packWorld_kills
  by (simp add: packWorld_def aliveHumansOf_def fibonacci_def fibs_def numeral_2_eq_2)

section \<open>C1: the terminal check\<close>

text \<open>
  C1, as the code has it. After a turn with no hostile alive and at least one friendly
  alive the game is over and won; after a turn with no friendly alive the game is over and
  not won, whether or not a hostile is alive: the victory branch is guarded by
  \<open>remainingHumans > 0\<close>, so when both counts are zero the state is lost.
\<close>

theorem simulateTurn_terminal:
  "(filter z_alive (zombies (simulateTurn s tx ty)) = [] \<and>
    filter h_alive (humans (simulateTurn s tx ty)) \<noteq> []
      \<longrightarrow> gameOver (simulateTurn s tx ty) \<and> won (simulateTurn s tx ty)) \<and>
   (filter h_alive (humans (simulateTurn s tx ty)) = []
      \<longrightarrow> gameOver (simulateTurn s tx ty) \<and> \<not> won (simulateTurn s tx ty))"
proof -
  obtain s6 where s6: "simulateTurn s tx ty = checkEnd s6"
    using simulateTurn_checkEnd by blast
  show ?thesis
    unfolding s6 by (simp add: checkEnd_def Let_def)
qed

theorem simulateTurn_terminal_witness:
  "(filter z_alive (zombies (simulateTurn coincidentOneHuman 8000 4500)) = [] \<and>
    filter h_alive (humans (simulateTurn coincidentOneHuman 8000 4500)) \<noteq> []) \<and>
   gameOver (simulateTurn coincidentOneHuman 8000 4500) \<and>
   won (simulateTurn coincidentOneHuman 8000 4500) \<and>
   filter h_alive (humans (simulateTurn coincidentNoHumans 8000 4500)) = [] \<and>
   gameOver (simulateTurn coincidentNoHumans 8000 4500) \<and>
   \<not> won (simulateTurn coincidentNoHumans 8000 4500)"
proof -
  have hs: "humans (simulateTurn coincidentOneHuman 8000 4500) = humans coincidentOneHuman"
    by (simp add: simulateTurn_humans coincidentOneHuman_surviving)
  have zs: "filter z_alive (zombies (simulateTurn coincidentOneHuman 8000 4500)) = []"
    by (simp add: simulateTurn_aliveZombies coincidentOneHuman_surviving)
  have hs': "filter h_alive (humans (simulateTurn coincidentOneHuman 8000 4500)) \<noteq> []"
    unfolding hs by (simp add: coincidentOneHuman_def)
  have no: "filter h_alive (humans (simulateTurn coincidentNoHumans 8000 4500)) = []"
    by (simp add: simulateTurn_humans eatHumans_Nil coincidentNoHumans_def)
  show ?thesis
    using simulateTurn_terminal [of coincidentOneHuman 8000 4500]
      simulateTurn_terminal [of coincidentNoHumans 8000 4500] zs hs' no
    by simp
qed

text \<open>
  The claim as stated fails: one hostile on the avatar's spot and no friendly. The hostile
  is eliminated, both counts are zero, and the state is lost.
\<close>

theorem both_zero_is_lost:
  "filter z_alive (zombies (simulateTurn coincidentNoHumans 8000 4500)) = [] \<and>
   filter h_alive (humans (simulateTurn coincidentNoHumans 8000 4500)) = [] \<and>
   gameOver (simulateTurn coincidentNoHumans 8000 4500) \<and>
   \<not> won (simulateTurn coincidentNoHumans 8000 4500)"
proof -
  have zs: "filter z_alive (zombies (simulateTurn coincidentNoHumans 8000 4500)) = []"
    by (simp add: simulateTurn_aliveZombies coincidentNoHumans_surviving)
  have hs: "filter h_alive (humans (simulateTurn coincidentNoHumans 8000 4500)) = []"
    by (simp add: simulateTurn_humans eatHumans_Nil coincidentNoHumans_def)
  show ?thesis
    using zs hs by (simp add: simulateTurn_gameOver simulateTurn_won)
qed

section \<open>C2: the movement primitive\<close>

text \<open>
  \<open>euclid\<close> is the distance of the plane, without rounding; \<open>distance\<close> is what the code
  computes.
\<close>

lemma euclid_nonneg [simp]: "0 \<le> euclid a b c d"
  by (simp add: euclid_def)

lemma euclid_scaled:
  assumes "0 \<le> t"
  shows "euclid a b (a + (c - a) * t) (b + (d - b) * t) = t * euclid a b c d"
proof -
  have "(a + (c - a) * t - a)\<^sup>2 + (b + (d - b) * t - b)\<^sup>2 = t\<^sup>2 * ((c - a)\<^sup>2 + (d - b)\<^sup>2)"
    by (simp add: power2_eq_square algebra_simps)
  then have "euclid a b (a + (c - a) * t) (b + (d - b) * t) =
      sqrt (t\<^sup>2 * ((c - a)\<^sup>2 + (d - b)\<^sup>2))"
    by (simp only: euclid_def)
  also have "\<dots> = t * euclid a b c d"
    using assms by (simp add: euclid_def real_sqrt_mult)
  finally show ?thesis .
qed

lemma euclid_floor:
  assumes "\<bar>cx - qx\<bar> \<le> 1 / 2 ^ 20" and "\<bar>cy - qy\<bar> \<le> 1 / 2 ^ 20"
  shows "euclid a b (of_int \<lfloor>cx\<rfloor>) (of_int \<lfloor>cy\<rfloor>) < euclid a b qx qy + 3 / 2"
proof -
  let ?ex = "of_int \<lfloor>cx\<rfloor> - qx" and ?ey = "of_int \<lfloor>cy\<rfloor> - qy"
  have "(1::real) / 2 ^ 20 \<le> 1 / 100" by simp
  then have c: "\<bar>cx - qx\<bar> \<le> 1 / 100" "\<bar>cy - qy\<bar> \<le> 1 / 100"
    using assms by linarith+
  have ex: "\<bar>?ex\<bar> \<le> 101 / 100" and ey: "\<bar>?ey\<bar> \<le> 101 / 100"
    using c by linarith+
  have "\<bar>?ex\<bar>\<^sup>2 \<le> (101 / 100)\<^sup>2" "\<bar>?ey\<bar>\<^sup>2 \<le> (101 / 100)\<^sup>2"
    using ex ey by (intro power_mono; simp)+
  then have "?ex\<^sup>2 + ?ey\<^sup>2 < (3 / 2)\<^sup>2"
    by (simp add: power2_eq_square)
  then have "sqrt (?ex\<^sup>2 + ?ey\<^sup>2) < sqrt ((3 / 2)\<^sup>2)"
    by (rule real_sqrt_less_mono)
  then have small: "sqrt (?ex\<^sup>2 + ?ey\<^sup>2) < 3 / 2"
    by simp
  have "euclid a b (of_int \<lfloor>cx\<rfloor>) (of_int \<lfloor>cy\<rfloor>) =
      sqrt (((qx - a) + ?ex)\<^sup>2 + ((qy - b) + ?ey)\<^sup>2)"
    by (simp add: euclid_def)
  also have "\<dots> \<le> sqrt ((qx - a)\<^sup>2 + (qy - b)\<^sup>2) + sqrt (?ex\<^sup>2 + ?ey\<^sup>2)"
    by (rule real_sqrt_sum_squares_triangle_ineq)
  also have "\<dots> < sqrt ((qx - a)\<^sup>2 + (qy - b)\<^sup>2) + 3 / 2"
    using small by (rule add_strict_left_mono)
  also have "sqrt ((qx - a)\<^sup>2 + (qy - b)\<^sup>2) = euclid a b qx qy"
    by (simp only: euclid_def)
  finally show ?thesis .
qed

lemma euclid_le_iff: "0 \<le> r \<Longrightarrow> euclid a b c d \<le> r \<longleftrightarrow> (c - a)\<^sup>2 + (d - b)\<^sup>2 \<le> r\<^sup>2"
  unfolding euclid_def
  by (metis abs_of_nonneg real_sqrt_abs real_sqrt_le_iff)

lemma abs_le_euclid: "\<bar>tx - fx\<bar> \<le> euclid fx fy tx ty" "\<bar>ty - fy\<bar> \<le> euclid fx fy tx ty"
proof -
  have "sqrt ((tx - fx)\<^sup>2) \<le> sqrt ((tx - fx)\<^sup>2 + (ty - fy)\<^sup>2)"
    by (rule real_sqrt_le_mono) simp
  then show "\<bar>tx - fx\<bar> \<le> euclid fx fy tx ty"
    by (simp add: euclid_def)
  have "sqrt ((ty - fy)\<^sup>2) \<le> sqrt ((tx - fx)\<^sup>2 + (ty - fy)\<^sup>2)"
    by (rule real_sqrt_le_mono) simp
  then show "\<bar>ty - fy\<bar> \<le> euclid fx fy tx ty"
    by (simp add: euclid_def)
qed

text \<open>
  The rounding errors on the way to the computed distance: of the two differences, of
  their squares and the sum, and of the square root.
\<close>

lemma rnd_err_le:
  assumes "\<bar>x\<bar> \<le> M"
  shows "\<bar>rnd x - x\<bar> \<le> M / 2 ^ 53 + 1 / 2 ^ 60"
proof -
  have "\<bar>x\<bar> / 2 ^ 53 \<le> M / 2 ^ 53"
    using assms by (intro divide_right_mono) simp_all
  then show ?thesis
    using rnd_err [of x] by linarith
qed

lemma norm_perturb:
  "\<bar>sqrt (a\<^sup>2 + b\<^sup>2) - sqrt (A\<^sup>2 + B\<^sup>2)\<bar> \<le> \<bar>a - A\<bar> + \<bar>b - B\<bar>"
proof -
  have e: "sqrt ((a - A)\<^sup>2 + (b - B)\<^sup>2) \<le> \<bar>a - A\<bar> + \<bar>b - B\<bar>"
    by (rule sqrt_sum_squares_le_sum_abs)
  have "sqrt ((A + (a - A))\<^sup>2 + (B + (b - B))\<^sup>2)
      \<le> sqrt (A\<^sup>2 + B\<^sup>2) + sqrt ((a - A)\<^sup>2 + (b - B)\<^sup>2)"
    by (rule real_sqrt_sum_squares_triangle_ineq)
  then have up: "sqrt (a\<^sup>2 + b\<^sup>2) \<le> sqrt (A\<^sup>2 + B\<^sup>2) + sqrt ((a - A)\<^sup>2 + (b - B)\<^sup>2)"
    by simp
  have "sqrt ((a + (A - a))\<^sup>2 + (b + (B - b))\<^sup>2)
      \<le> sqrt (a\<^sup>2 + b\<^sup>2) + sqrt ((A - a)\<^sup>2 + (B - b)\<^sup>2)"
    by (rule real_sqrt_sum_squares_triangle_ineq)
  moreover have "(A - a)\<^sup>2 = (a - A)\<^sup>2" "(B - b)\<^sup>2 = (b - B)\<^sup>2"
    by (simp_all add: power2_commute)
  ultimately have lo: "sqrt (A\<^sup>2 + B\<^sup>2) \<le> sqrt (a\<^sup>2 + b\<^sup>2) + sqrt ((a - A)\<^sup>2 + (b - B)\<^sup>2)"
    by simp
  show ?thesis
    using e up lo by linarith
qed

lemma sqrt_small: "sqrt (4 / 2 ^ 60) = 1 / 2 ^ 29"
  by (rule real_sqrt_unique) (simp_all add: power2_eq_square)

lemma sqrt_slack:
  assumes "0 \<le> u" and "u \<le> v + 4 / 2 ^ 60" and "0 \<le> v"
  shows "sqrt u \<le> sqrt v + 1 / 2 ^ 29"
proof -
  have "sqrt u \<le> sqrt (v + 4 / 2 ^ 60)"
    using assms(2) by (rule real_sqrt_le_mono)
  also have "\<dots> \<le> sqrt v + sqrt (4 / 2 ^ 60)"
    by (rule sqrt_add_le_add_sqrt) (use assms(3) in simp_all)
  finally show ?thesis
    unfolding sqrt_small .
qed

lemma sumsq_round:
  assumes "\<bar>a\<bar> \<le> 2 ^ 22" and "\<bar>b\<bar> \<le> 2 ^ 22"
  shows "\<bar>sqrt (rnd (rnd (a\<^sup>2) + rnd (b\<^sup>2))) - sqrt (a\<^sup>2 + b\<^sup>2)\<bar> \<le> 1 / 2 ^ 28"
proof -
  define X Y N where "X = a\<^sup>2" and "Y = b\<^sup>2" and "N = a\<^sup>2 + b\<^sup>2"
  define x y n m where "x = rnd X" and "y = rnd Y" and "n = x + y" and "m = rnd n"
  define r where "r = sqrt N"
  have X: "0 \<le> X" and Y: "0 \<le> Y" and N: "N = X + Y" "0 \<le> N"
    by (simp_all add: X_def Y_def N_def)
  have "\<bar>a\<bar>\<^sup>2 \<le> (2 ^ 22)\<^sup>2" "\<bar>b\<bar>\<^sup>2 \<le> (2 ^ 22)\<^sup>2"
    using assms by (intro power_mono; simp)+
  then have Nb: "N \<le> 2 ^ 45"
    by (simp add: N_def)
  have x: "0 \<le> x" "\<bar>x - X\<bar> \<le> X / 2 ^ 53 + 1 / 2 ^ 60"
    using X rnd_err [of X] by (simp_all add: x_def rnd_nonneg)
  have y: "0 \<le> y" "\<bar>y - Y\<bar> \<le> Y / 2 ^ 53 + 1 / 2 ^ 60"
    using Y rnd_err [of Y] by (simp_all add: y_def rnd_nonneg)
  have n0: "0 \<le> n"
    using x(1) y(1) by (simp add: n_def)
  have "\<bar>n - N\<bar> \<le> \<bar>x - X\<bar> + \<bar>y - Y\<bar>"
    unfolding n_def N by linarith
  also have "\<dots> \<le> (X / 2 ^ 53 + 1 / 2 ^ 60) + (Y / 2 ^ 53 + 1 / 2 ^ 60)"
    using x(2) y(2) by (rule add_mono)
  also have "\<dots> = N / 2 ^ 53 + 2 / 2 ^ 60"
    unfolding N by (simp add: add_divide_distrib)
  finally have n: "0 \<le> n" "\<bar>n - N\<bar> \<le> N / 2 ^ 53 + 2 / 2 ^ 60"
    using n0 by simp_all
  have m: "0 \<le> m" "\<bar>m - n\<bar> \<le> n / 2 ^ 53 + 1 / 2 ^ 60"
    using n(1) rnd_err [of n] by (simp_all add: m_def rnd_nonneg)
  let ?u = "1 + 1 / 2 ^ 53 :: real" and ?l = "1 - 1 / 2 ^ 53 :: real"
  have "m \<le> n * ?u + 1 / 2 ^ 60"
    using m(2) by (simp add: algebra_simps abs_le_iff)
  moreover have "n * ?u \<le> (N * ?u + 2 / 2 ^ 60) * ?u"
    using n(2) by (intro mult_right_mono) (simp_all add: algebra_simps abs_le_iff)
  moreover have "(N * ?u + 2 / 2 ^ 60) * ?u = N * ?u\<^sup>2 + 2 / 2 ^ 60 * ?u"
    by (simp add: algebra_simps power2_eq_square)
  moreover have "2 / 2 ^ 60 * ?u \<le> 3 / 2 ^ 60"
    by simp
  ultimately have up: "m \<le> N * ?u\<^sup>2 + 4 / 2 ^ 60"
    by linarith
  have "n * ?l - 1 / 2 ^ 60 \<le> m"
    using m(2) by (simp add: algebra_simps abs_le_iff)
  moreover have "(N * ?l - 2 / 2 ^ 60) * ?l \<le> n * ?l"
    using n(2) by (intro mult_right_mono) (simp_all add: algebra_simps abs_le_iff)
  moreover have "(N * ?l - 2 / 2 ^ 60) * ?l = N * ?l\<^sup>2 - 2 / 2 ^ 60 * ?l"
    by (simp add: algebra_simps power2_eq_square)
  moreover have "2 / 2 ^ 60 * ?l \<le> 3 / 2 ^ 60"
    by simp
  ultimately have lo: "N * ?l\<^sup>2 \<le> m + 4 / 2 ^ 60"
    by linarith
  have su: "sqrt (N * ?u\<^sup>2) = r * ?u" and sl: "sqrt (N * ?l\<^sup>2) = r * ?l"
    by (simp_all add: real_sqrt_mult r_def)
  have "sqrt m \<le> sqrt (N * ?u\<^sup>2) + 1 / 2 ^ 29"
    using m(1) up N(2) by (intro sqrt_slack) simp_all
  then have upper: "sqrt m \<le> r * ?u + 1 / 2 ^ 29"
    unfolding su .
  have "sqrt (N * ?l\<^sup>2) \<le> sqrt m + 1 / 2 ^ 29"
    using m(1) lo N(2) by (intro sqrt_slack) simp_all
  then have lower: "r * ?l \<le> sqrt m + 1 / 2 ^ 29"
    unfolding sl .
  have "r \<le> sqrt ((2 ^ 23)\<^sup>2)"
    unfolding r_def using Nb by (intro real_sqrt_le_mono) simp
  then have rb: "r \<le> 2 ^ 23" by simp
  have r0: "0 \<le> r" by (simp add: r_def N(2))
  have "r / 2 ^ 53 \<le> 2 ^ 23 / 2 ^ 53"
    using rb by (intro divide_right_mono) simp_all
  then have re: "r / 2 ^ 53 \<le> 1 / 2 ^ 30" by simp
  have eu: "r * ?u = r + r / 2 ^ 53" and el: "r * ?l = r - r / 2 ^ 53"
    by (simp_all add: algebra_simps)
  have upper': "sqrt m \<le> r + r / 2 ^ 53 + 1 / 2 ^ 29"
    using upper unfolding eu .
  have lower': "r - r / 2 ^ 53 \<le> sqrt m + 1 / 2 ^ 29"
    using lower unfolding el .
  define t where "t = r / 2 ^ 53"
  have "\<bar>sqrt m - r\<bar> \<le> 1 / 2 ^ 29 + 1 / 2 ^ 30"
    using upper' lower' re unfolding t_def [symmetric] by linarith
  also have "\<dots> \<le> 1 / 2 ^ 28" by simp
  finally show ?thesis
    by (simp add: m_def n_def x_def y_def X_def Y_def r_def N_def)
qed

lemma diff_round:
  assumes "\<bar>f\<bar> \<le> 2 ^ 20" and "\<bar>t\<bar> \<le> 2 ^ 20"
  shows "\<bar>rnd (t - f) - (t - f)\<bar> \<le> 1 / 2 ^ 31" and "\<bar>rnd (t - f)\<bar> \<le> 2 ^ 22"
proof -
  have b: "\<bar>t - f\<bar> \<le> 2 ^ 21" using assms by simp
  from rnd_err_le [OF this] show e: "\<bar>rnd (t - f) - (t - f)\<bar> \<le> 1 / 2 ^ 31"
    by simp
  have "(1::real) / 2 ^ 31 \<le> 1" by simp
  then have "\<bar>rnd (t - f)\<bar> \<le> \<bar>t - f\<bar> + 1"
    using e by linarith
  then show "\<bar>rnd (t - f)\<bar> \<le> 2 ^ 22"
    using b by simp
qed

text \<open>The distance that the code computes is within \<open>1 / 2 ^ 26\<close> of the distance of the plane.\<close>

lemma distance_error:
  assumes "\<bar>fx\<bar> \<le> 2 ^ 20" "\<bar>fy\<bar> \<le> 2 ^ 20" "\<bar>tx\<bar> \<le> 2 ^ 20" "\<bar>ty\<bar> \<le> 2 ^ 20"
  shows "\<bar>distance fx fy tx ty - euclid fx fy tx ty\<bar> \<le> 1 / 2 ^ 26"
proof -
  define a b where "a = rnd (tx - fx)" and "b = rnd (ty - fy)"
  define m where "m = rnd (rnd (a\<^sup>2) + rnd (b\<^sup>2))"
  have a: "\<bar>a - (tx - fx)\<bar> \<le> 1 / 2 ^ 31" "\<bar>a\<bar> \<le> 2 ^ 22"
    unfolding a_def using assms(1,3) by (rule diff_round)+
  have b: "\<bar>b - (ty - fy)\<bar> \<le> 1 / 2 ^ 31" "\<bar>b\<bar> \<le> 2 ^ 22"
    unfolding b_def using assms(2,4) by (rule diff_round)+
  have "\<bar>sqrt (a\<^sup>2 + b\<^sup>2) - euclid fx fy tx ty\<bar> \<le> \<bar>a - (tx - fx)\<bar> + \<bar>b - (ty - fy)\<bar>"
    unfolding euclid_def by (rule norm_perturb)
  then have e1: "\<bar>sqrt (a\<^sup>2 + b\<^sup>2) - euclid fx fy tx ty\<bar> \<le> 2 / 2 ^ 31"
    using a(1) b(1) by linarith
  have e2: "\<bar>sqrt m - sqrt (a\<^sup>2 + b\<^sup>2)\<bar> \<le> 1 / 2 ^ 28"
    unfolding m_def using a(2) b(2) by (rule sumsq_round)
  have "\<bar>a\<bar>\<^sup>2 \<le> (2 ^ 22)\<^sup>2" "\<bar>b\<bar>\<^sup>2 \<le> (2 ^ 22)\<^sup>2"
    using a(2) b(2) by (intro power_mono; simp)+
  then have "a\<^sup>2 + b\<^sup>2 \<le> (2 ^ 23)\<^sup>2"
    by simp
  then have "sqrt (a\<^sup>2 + b\<^sup>2) \<le> sqrt ((2 ^ 23)\<^sup>2)"
    by (rule real_sqrt_le_mono)
  then have "sqrt (a\<^sup>2 + b\<^sup>2) \<le> 2 ^ 23"
    by simp
  moreover have "(1::real) / 2 ^ 28 \<le> 1" by simp
  moreover have "0 \<le> sqrt m"
    unfolding m_def by (intro real_sqrt_ge_zero rnd_nonneg add_nonneg_nonneg) simp_all
  ultimately have "\<bar>sqrt m\<bar> \<le> 2 ^ 23 + 1"
    using e2 by linarith
  from rnd_err_le [OF this] have e3: "\<bar>rnd (sqrt m) - sqrt m\<bar> \<le> 1 / 2 ^ 29"
    by simp
  have d: "distance fx fy tx ty = rnd (sqrt m)"
    by (simp add: distance_def m_def a_def b_def)
  have "\<bar>distance fx fy tx ty - euclid fx fy tx ty\<bar> \<le> 1 / 2 ^ 29 + 1 / 2 ^ 28 + 2 / 2 ^ 31"
    unfolding d using e1 e2 e3 by linarith
  also have "\<dots> \<le> 1 / 2 ^ 26" by simp
  finally show ?thesis .
qed

lemma distance_same [simp]: "distance x y x y = 0"
  by (simp add: distance_def)

text \<open>On the integer grid the computed distance is the rounded distance of the plane.\<close>

lemma diff_bound: "\<bar>f\<bar> \<le> 2 ^ 20 \<Longrightarrow> \<bar>t\<bar> \<le> 2 ^ 20 \<Longrightarrow> \<bar>t - f\<bar> \<le> (2 ^ 21 :: real)"
  by simp

lemma euclid_ge_1:
  assumes "a \<in> \<int>" "b \<in> \<int>" "c \<in> \<int>" "d \<in> \<int>" and "euclid a b c d \<noteq> 0"
  shows "1 \<le> euclid a b c d"
proof -
  let ?n = "(c - a)\<^sup>2 + (d - b)\<^sup>2"
  have "?n \<in> \<int>" using assms(1-4) by simp
  then obtain k where k: "?n = of_int k" by (auto elim: Ints_cases)
  have "?n \<noteq> 0" using assms(5) unfolding euclid_def by simp
  moreover have "0 \<le> ?n" by simp
  ultimately have "0 < real_of_int k" unfolding k by linarith
  then have "1 \<le> k" by simp
  then have "1 \<le> real_of_int k" by simp
  then have "1 \<le> ?n" unfolding k .
  then show ?thesis unfolding euclid_def by simp
qed

lemma distance_euclid:
  assumes "fx \<in> \<int>" "fy \<in> \<int>" "tx \<in> \<int>" "ty \<in> \<int>"
    and "\<bar>fx\<bar> \<le> 2 ^ 20" "\<bar>fy\<bar> \<le> 2 ^ 20" "\<bar>tx\<bar> \<le> 2 ^ 20" "\<bar>ty\<bar> \<le> 2 ^ 20"
  shows "distance fx fy tx ty = rnd (euclid fx fy tx ty)"
    and "\<bar>distance fx fy tx ty - euclid fx fy tx ty\<bar> \<le> euclid fx fy tx ty / 2 ^ 53"
proof -
  show d: "distance fx fy tx ty = rnd (euclid fx fy tx ty)"
    using assms by (intro distance_int diff_bound)
  show "\<bar>distance fx fy tx ty - euclid fx fy tx ty\<bar> \<le> euclid fx fy tx ty / 2 ^ 53"
  proof (cases "euclid fx fy tx ty = 0")
    case True
    then show ?thesis unfolding d by simp
  next
    case False
    then have "1 \<le> euclid fx fy tx ty" using assms(1-4) by (intro euclid_ge_1)
    then have "1 \<le> \<bar>euclid fx fy tx ty\<bar>" by simp
    from rnd_err_ge1 [OF this] show ?thesis unfolding d by simp
  qed
qed

text \<open>
  The rounding errors of one coordinate of a step: of the ratio, of its product with the
  difference of the coordinates, and of the sum with the source coordinate.
\<close>

lemma ratio_bounds:
  assumes "0 \<le> s" and "s < d"
  shows "0 \<le> rnd (s / d)" "rnd (s / d) \<le> 1" "\<bar>rnd (s / d) - s / d\<bar> \<le> 1 / 2 ^ 53 + 1 / 2 ^ 60"
proof -
  have d: "0 < d" using assms by linarith
  have q0: "0 \<le> s / d" using assms d by simp
  have q1: "s / d \<le> 1" using assms d by simp
  show "0 \<le> rnd (s / d)" using q0 by (rule rnd_nonneg)
  show "rnd (s / d) \<le> 1" using q1 by (intro rnd_le_Ints) simp_all
  have "\<bar>s / d\<bar> / 2 ^ 53 \<le> 1 / 2 ^ 53"
    using q0 q1 by (intro divide_right_mono) simp_all
  then show "\<bar>rnd (s / d) - s / d\<bar> \<le> 1 / 2 ^ 53 + 1 / 2 ^ 60"
    using rnd_err [of "s / d"] by linarith
qed

lemma coord_round:
  assumes f: "\<bar>f\<bar> \<le> 2 ^ 20" and t: "\<bar>t\<bar> \<le> 2 ^ 20"
    and s: "0 \<le> s" "s < d" and D: "0 < D" "\<bar>t - f\<bar> \<le> D" and dD: "\<bar>d - D\<bar> \<le> 1 / 2 ^ 26"
  shows "\<bar>rnd (f + rnd (rnd (t - f) * rnd (s / d))) - (f + (t - f) * (s / D))\<bar> \<le> 1 / 2 ^ 20"
proof -
  define A a r p c where "A = t - f" and "a = rnd (t - f)" and "r = rnd (s / d)"
    and "p = rnd (a * r)" and "c = rnd (f + p)"
  define u v where "u = s / d" and "v = s / D"
  have d: "0 < d" using s by linarith
  have q: "0 \<le> u" "u \<le> 1" using s d by (simp_all add: u_def)
  have r: "0 \<le> r" "r \<le> 1" and rd: "\<bar>r - u\<bar> \<le> 1 / 2 ^ 53 + 1 / 2 ^ 60"
    unfolding r_def u_def using s by (rule ratio_bounds)+
  have a: "\<bar>a - A\<bar> \<le> 1 / 2 ^ 31" "\<bar>a\<bar> \<le> 2 ^ 22"
    unfolding a_def A_def using f t by (rule diff_round)+
  have ar: "\<bar>a * r\<bar> \<le> 2 ^ 22 * 1"
    unfolding abs_mult using a(2) r by (intro mult_mono) simp_all
  then have ar': "\<bar>a * r\<bar> \<le> 2 ^ 22" by simp
  from rnd_err_le [OF this] have E2: "\<bar>p - a * r\<bar> \<le> 1 / 2 ^ 31 + 1 / 2 ^ 60"
    by (simp add: p_def)
  have "(1::real) / 2 ^ 31 + 1 / 2 ^ 60 \<le> 1" by simp
  then have "\<bar>p\<bar> \<le> \<bar>a * r\<bar> + 1" using E2 by linarith
  then have "\<bar>f + p\<bar> \<le> 2 ^ 20 + (2 ^ 22 + 1)" using f ar' by linarith
  then have "\<bar>f + p\<bar> \<le> 2 ^ 23" by simp
  from rnd_err_le [OF this] have E3: "\<bar>c - (f + p)\<bar> \<le> 1 / 2 ^ 30 + 1 / 2 ^ 60"
    by (simp add: c_def)
  have "\<bar>a * (r - u)\<bar> \<le> 2 ^ 22 * (1 / 2 ^ 53 + 1 / 2 ^ 60)"
    unfolding abs_mult using a(2) rd by (intro mult_mono) simp_all
  then have T1: "\<bar>a * (r - u)\<bar> \<le> 1 / 2 ^ 30" by simp
  have "\<bar>(a - A) * u\<bar> \<le> 1 / 2 ^ 31 * 1"
    unfolding abs_mult using a(1) q by (intro mult_mono) simp_all
  then have T2: "\<bar>(a - A) * u\<bar> \<le> 1 / 2 ^ 31" by simp
  have AD: "\<bar>A / D\<bar> \<le> 1"
    using D by (simp add: A_def)
  have "u - v = u * ((D - d) / D)"
    using d D(1) by (simp add: u_def v_def field_simps)
  then have "A * (u - v) = (A / D) * (u * (D - d))"
    by simp
  moreover have "\<bar>(A / D) * (u * (D - d))\<bar> \<le> 1 * (1 * (1 / 2 ^ 26))"
    unfolding abs_mult using AD q dD by (intro mult_mono) (simp_all add: abs_minus_commute)
  ultimately have T3: "\<bar>A * (u - v)\<bar> \<le> 1 / 2 ^ 26" by simp
  have "c - (f + A * v) =
      (c - (f + p)) + (p - a * r) + a * (r - u) + (a - A) * u + A * (u - v)"
    by (simp add: algebra_simps)
  then have "\<bar>c - (f + A * v)\<bar> \<le>
      \<bar>c - (f + p)\<bar> + \<bar>p - a * r\<bar> + \<bar>a * (r - u)\<bar> + \<bar>(a - A) * u\<bar> + \<bar>A * (u - v)\<bar>"
    by linarith
  also have "\<dots> \<le> (1 / 2 ^ 30 + 1 / 2 ^ 60) + (1 / 2 ^ 31 + 1 / 2 ^ 60) + 1 / 2 ^ 30
      + 1 / 2 ^ 31 + 1 / 2 ^ 26"
    using E3 E2 T1 T2 T3 by linarith
  also have "\<dots> \<le> 1 / 2 ^ 20" by simp
  finally show ?thesis
    by (simp add: c_def p_def r_def a_def A_def v_def)
qed

lemma coord_between:
  assumes "f \<in> \<int>" "t \<in> \<int>" "\<bar>f\<bar> \<le> 2 ^ 20" "\<bar>t\<bar> \<le> 2 ^ 20" "0 \<le> r" "r \<le> 1"
  shows "min f t \<le> of_int \<lfloor>rnd (f + rnd ((t - f) * r))\<rfloor>"
    and "of_int \<lfloor>rnd (f + rnd ((t - f) * r))\<rfloor> \<le> max f t"
proof -
  let ?p = "rnd ((t - f) * r)"
  have a: "t - f \<in> \<int>" "\<bar>t - f\<bar> < 2 ^ 53" using assms by simp_all
  have fb: "\<bar>f\<bar> < 2 ^ 53" "\<bar>t\<bar> < 2 ^ 53" using assms by simp_all
  have z: "(0::real) \<in> \<int>" "\<bar>0::real\<bar> < 2 ^ 53" by simp_all
  have both: "min f t \<le> rnd (f + ?p) \<and> rnd (f + ?p) \<le> max f t"
  proof (cases "f \<le> t")
    case True
    then have "0 \<le> (t - f) * r" "(t - f) * r \<le> t - f"
      using assms(5,6) by (simp_all add: mult_left_le)
    then have "0 \<le> ?p" "?p \<le> t - f"
      using a by (simp_all add: rnd_nonneg rnd_le_Ints)
    then have "f \<le> f + ?p" "f + ?p \<le> t" by simp_all
    then have "f \<le> rnd (f + ?p)" "rnd (f + ?p) \<le> t"
      using assms(1,2) fb by (simp_all add: rnd_ge_Ints rnd_le_Ints)
    then show ?thesis using True by simp
  next
    case False
    then have "0 \<le> (f - t) * r" "(f - t) * r \<le> f - t"
      using assms(5,6) by (simp_all add: mult_left_le)
    moreover have "(t - f) * r = - ((f - t) * r)" by (simp add: algebra_simps)
    ultimately have "(t - f) * r \<le> 0" "t - f \<le> (t - f) * r"
      by linarith+
    then have "?p \<le> 0" "t - f \<le> ?p"
      using a z by (simp_all add: rnd_ge_Ints rnd_le_Ints)
    then have "f + ?p \<le> f" "t \<le> f + ?p" by simp_all
    then have "rnd (f + ?p) \<le> f" "t \<le> rnd (f + ?p)"
      using assms(1,2) fb by (simp_all add: rnd_ge_Ints rnd_le_Ints)
    then show ?thesis using False by simp
  qed
  have m: "min f t \<in> \<int>" "max f t \<in> \<int>" using assms(1,2) by (simp_all add: min_def max_def)
  obtain k where k: "min f t = of_int k" using m(1) by (auto elim: Ints_cases)
  obtain j where j: "max f t = of_int j" using m(2) by (auto elim: Ints_cases)
  show "min f t \<le> of_int \<lfloor>rnd (f + ?p)\<rfloor>"
    using both unfolding k by (simp add: le_floor_iff)
  have "\<lfloor>rnd (f + ?p)\<rfloor> \<le> j"
    using both unfolding j by (simp add: floor_le_iff)
  then show "of_int \<lfloor>rnd (f + ?p)\<rfloor> \<le> max f t"
    unfolding j by simp
qed

lemma moveTowards_snap:
  "distance fx fy tx ty \<le> s \<Longrightarrow> moveTowards fx fy tx ty s = \<lparr>p_x = tx, p_y = ty\<rparr>"
  by (simp add: moveTowards_def)

lemma moveTowards_step:
  assumes "\<bar>fx\<bar> \<le> 2 ^ 20" "\<bar>fy\<bar> \<le> 2 ^ 20" "\<bar>tx\<bar> \<le> 2 ^ 20" "\<bar>ty\<bar> \<le> 2 ^ 20"
    and s: "0 \<le> s" and far: "s < distance fx fy tx ty"
  shows "\<exists>cx cy.
      \<bar>cx - (fx + (tx - fx) * (s / euclid fx fy tx ty))\<bar> \<le> 1 / 2 ^ 20 \<and>
      \<bar>cy - (fy + (ty - fy) * (s / euclid fx fy tx ty))\<bar> \<le> 1 / 2 ^ 20 \<and>
      moveTowards fx fy tx ty s = \<lparr>p_x = of_int \<lfloor>cx\<rfloor>, p_y = of_int \<lfloor>cy\<rfloor>\<rparr>"
    and "euclid fx fy (fx + (tx - fx) * (s / euclid fx fy tx ty))
           (fy + (ty - fy) * (s / euclid fx fy tx ty)) = s"
proof -
  let ?D = "euclid fx fy tx ty" and ?d = "distance fx fy tx ty"
  let ?r = "rnd (s / ?d)"
  let ?cx = "rnd (fx + rnd (rnd (tx - fx) * ?r))" and ?cy = "rnd (fy + rnd (rnd (ty - fy) * ?r))"
  have dD: "\<bar>?d - ?D\<bar> \<le> 1 / 2 ^ 26"
    using assms(1-4) by (rule distance_error)
  have "?D \<noteq> 0"
  proof
    assume "?D = 0"
    then have "tx = fx \<and> ty = fy"
      by (simp add: euclid_def)
    then show False using s far by simp
  qed
  then have D: "0 < ?D"
    using euclid_nonneg [of fx fy tx ty] by linarith
  have m: "moveTowards fx fy tx ty s = \<lparr>p_x = of_int \<lfloor>?cx\<rfloor>, p_y = of_int \<lfloor>?cy\<rfloor>\<rparr>"
    using far by (simp add: moveTowards_def Let_def)
  have ex: "\<bar>?cx - (fx + (tx - fx) * (s / ?D))\<bar> \<le> 1 / 2 ^ 20"
    using assms(1,3) s far D abs_le_euclid(1) dD by (rule coord_round)
  have ey: "\<bar>?cy - (fy + (ty - fy) * (s / ?D))\<bar> \<le> 1 / 2 ^ 20"
    using assms(2,4) s far D abs_le_euclid(2) dD by (rule coord_round)
  show "\<exists>cx cy.
      \<bar>cx - (fx + (tx - fx) * (s / ?D))\<bar> \<le> 1 / 2 ^ 20 \<and>
      \<bar>cy - (fy + (ty - fy) * (s / ?D))\<bar> \<le> 1 / 2 ^ 20 \<and>
      moveTowards fx fy tx ty s = \<lparr>p_x = of_int \<lfloor>cx\<rfloor>, p_y = of_int \<lfloor>cy\<rfloor>\<rparr>"
    using ex ey m by blast
  have "0 \<le> s / ?D" using s D by simp
  from euclid_scaled [OF this, of fx fy tx ty]
  show "euclid fx fy (fx + (tx - fx) * (s / ?D)) (fy + (ty - fy) * (s / ?D)) = s"
    using D by simp
qed

lemma moveTowards_near:
  assumes "\<bar>fx\<bar> \<le> 2 ^ 20" "\<bar>fy\<bar> \<le> 2 ^ 20" "\<bar>tx\<bar> \<le> 2 ^ 20" "\<bar>ty\<bar> \<le> 2 ^ 20"
    and s: "0 \<le> s"
  shows "euclid fx fy (p_x (moveTowards fx fy tx ty s)) (p_y (moveTowards fx fy tx ty s))
           < s + 3 / 2"
proof (cases "distance fx fy tx ty \<le> s")
  case True
  have "\<bar>distance fx fy tx ty - euclid fx fy tx ty\<bar> \<le> 1 / 2 ^ 26"
    using assms(1-4) by (rule distance_error)
  moreover have "(1::real) / 2 ^ 26 < 3 / 2" by simp
  ultimately have "euclid fx fy tx ty < s + 3 / 2"
    using True by linarith
  then show ?thesis
    unfolding moveTowards_snap [OF True] by simp
next
  case False
  then have far: "s < distance fx fy tx ty" by simp
  from moveTowards_step(1) [OF assms(1-4) s far]
  obtain cx cy where c: "\<bar>cx - (fx + (tx - fx) * (s / euclid fx fy tx ty))\<bar> \<le> 1 / 2 ^ 20"
      "\<bar>cy - (fy + (ty - fy) * (s / euclid fx fy tx ty))\<bar> \<le> 1 / 2 ^ 20"
      "moveTowards fx fy tx ty s = \<lparr>p_x = of_int \<lfloor>cx\<rfloor>, p_y = of_int \<lfloor>cy\<rfloor>\<rparr>"
    by blast
  show ?thesis
    unfolding c(3) using euclid_floor [OF c(1,2), of fx fy]
      moveTowards_step(2) [OF assms(1-4) s far] by simp
qed

text \<open>On the integer grid a step stays on the grid and does not pass the target.\<close>

lemma moveTowards_between:
  assumes "fx \<in> \<int>" "fy \<in> \<int>" "tx \<in> \<int>" "ty \<in> \<int>"
    and "\<bar>fx\<bar> \<le> 2 ^ 20" "\<bar>fy\<bar> \<le> 2 ^ 20" "\<bar>tx\<bar> \<le> 2 ^ 20" "\<bar>ty\<bar> \<le> 2 ^ 20"
    and s: "0 \<le> s"
  shows "min fx tx \<le> p_x (moveTowards fx fy tx ty s)"
    and "p_x (moveTowards fx fy tx ty s) \<le> max fx tx"
    and "min fy ty \<le> p_y (moveTowards fx fy tx ty s)"
    and "p_y (moveTowards fx fy tx ty s) \<le> max fy ty"
    and "p_x (moveTowards fx fy tx ty s) \<in> \<int>"
    and "p_y (moveTowards fx fy tx ty s) \<in> \<int>"
proof -
  let ?m = "moveTowards fx fy tx ty s"
  have "min fx tx \<le> p_x ?m \<and> p_x ?m \<le> max fx tx \<and> min fy ty \<le> p_y ?m \<and> p_y ?m \<le> max fy ty
      \<and> p_x ?m \<in> \<int> \<and> p_y ?m \<in> \<int>"
  proof (cases "distance fx fy tx ty \<le> s")
    case True
    show ?thesis
      unfolding moveTowards_snap [OF True] using assms(3,4) by simp
  next
    case False
    then have far: "s < distance fx fy tx ty" by simp
    let ?r = "rnd (s / distance fx fy tx ty)"
    have r: "0 \<le> ?r" "?r \<le> 1"
      using s far by (rule ratio_bounds)+
    have rx: "rnd (tx - fx) = tx - fx" and ry: "rnd (ty - fy) = ty - fy"
      using assms(1-8) by (simp_all add: rnd_Ints)
    have m: "?m = \<lparr>p_x = of_int \<lfloor>rnd (fx + rnd ((tx - fx) * ?r))\<rfloor>,
        p_y = of_int \<lfloor>rnd (fy + rnd ((ty - fy) * ?r))\<rfloor>\<rparr>"
      using far by (simp add: moveTowards_def Let_def rx ry)
    show ?thesis
      unfolding m
      using coord_between [OF assms(1,3,5,7) r] coord_between [OF assms(2,4,6,8) r]
      by simp
  qed
  then show "min fx tx \<le> p_x ?m" "p_x ?m \<le> max fx tx" "min fy ty \<le> p_y ?m"
    "p_y ?m \<le> max fy ty" "p_x ?m \<in> \<int>" "p_y ?m \<in> \<int>"
    by simp_all
qed

text \<open>
  C2, as the code has it, in double precision, for coordinates of magnitude at most
  \<open>2 ^ 20\<close> and a step \<open>speed \<ge> 0\<close>. The distance that the code compares with the step is
  within \<open>1 / 2 ^ 26\<close> of the distance of the plane. When it is at most the step the result
  is the target. Otherwise take the point of the line from the source to the target at
  distance exactly \<open>speed\<close> from the source: the code computes a point within \<open>1 / 2 ^ 20\<close>
  of it in each coordinate and returns the floor of each coordinate of the computed point.
  In both cases the result is less than \<open>speed + 3 / 2\<close> from the source (flooring moves
  each coordinate down by up to one unit, which can take the point out of the circle of
  radius \<open>speed\<close>). When the four coordinates are whole numbers, the computed distance is
  the distance of the plane rounded once, the comparison with a whole step is the exact
  one, and each coordinate of the result lies between the source's and the target's: the
  move does not pass the target.
\<close>

theorem moveTowards_bound:
  assumes "\<bar>fromX\<bar> \<le> 2 ^ 20" "\<bar>fromY\<bar> \<le> 2 ^ 20" "\<bar>toX\<bar> \<le> 2 ^ 20" "\<bar>toY\<bar> \<le> 2 ^ 20"
    and "0 \<le> speed"
  shows
    "(distance fromX fromY toX toY \<le> speed \<longrightarrow>
        moveTowards fromX fromY toX toY speed = \<lparr>p_x = toX, p_y = toY\<rparr>) \<and>
     (speed < distance fromX fromY toX toY \<longrightarrow>
        (\<exists>cx cy.
           \<bar>cx - (fromX + (toX - fromX) * (speed / euclid fromX fromY toX toY))\<bar> \<le> 1 / 2 ^ 20 \<and>
           \<bar>cy - (fromY + (toY - fromY) * (speed / euclid fromX fromY toX toY))\<bar> \<le> 1 / 2 ^ 20 \<and>
           moveTowards fromX fromY toX toY speed = \<lparr>p_x = of_int \<lfloor>cx\<rfloor>, p_y = of_int \<lfloor>cy\<rfloor>\<rparr>) \<and>
        euclid fromX fromY (fromX + (toX - fromX) * (speed / euclid fromX fromY toX toY))
          (fromY + (toY - fromY) * (speed / euclid fromX fromY toX toY)) = speed) \<and>
     \<bar>distance fromX fromY toX toY - euclid fromX fromY toX toY\<bar> \<le> 1 / 2 ^ 26 \<and>
     euclid fromX fromY (p_x (moveTowards fromX fromY toX toY speed))
        (p_y (moveTowards fromX fromY toX toY speed)) < speed + 3 / 2 \<and>
     (fromX \<in> \<int> \<and> fromY \<in> \<int> \<and> toX \<in> \<int> \<and> toY \<in> \<int> \<longrightarrow>
        distance fromX fromY toX toY = rnd (euclid fromX fromY toX toY) \<and>
        (speed \<in> \<int> \<and> speed \<le> 2 ^ 21 \<longrightarrow>
           (distance fromX fromY toX toY \<le> speed \<longleftrightarrow> euclid fromX fromY toX toY \<le> speed)) \<and>
        min fromX toX \<le> p_x (moveTowards fromX fromY toX toY speed) \<and>
        p_x (moveTowards fromX fromY toX toY speed) \<le> max fromX toX \<and>
        min fromY toY \<le> p_y (moveTowards fromX fromY toX toY speed) \<and>
        p_y (moveTowards fromX fromY toX toY speed) \<le> max fromY toY)"
proof -
  let ?d = "distance fromX fromY toX toY"
  let ?m = "moveTowards fromX fromY toX toY speed"
  note range = assms(1-4)
  have snap: "?m = \<lparr>p_x = toX, p_y = toY\<rparr>" if "?d \<le> speed"
    using that by (rule moveTowards_snap)
  have whole: "?d \<le> speed \<longleftrightarrow> euclid fromX fromY toX toY \<le> speed"
    if "fromX \<in> \<int> \<and> fromY \<in> \<int> \<and> toX \<in> \<int> \<and> toY \<in> \<int>" "speed \<in> \<int> \<and> speed \<le> 2 ^ 21"
  proof -
    have "?d \<le> speed \<longleftrightarrow> (toX - fromX)\<^sup>2 + (toY - fromY)\<^sup>2 \<le> speed\<^sup>2"
      using range that assms(5) by (intro distance_le_iff diff_bound) simp_all
    then show ?thesis
      using assms(5) by (simp add: euclid_le_iff)
  qed
  have grid: "?d = rnd (euclid fromX fromY toX toY) \<and>
        min fromX toX \<le> p_x ?m \<and> p_x ?m \<le> max fromX toX \<and>
        min fromY toY \<le> p_y ?m \<and> p_y ?m \<le> max fromY toY"
    if "fromX \<in> \<int> \<and> fromY \<in> \<int> \<and> toX \<in> \<int> \<and> toY \<in> \<int>"
    using that range assms(5) by (simp add: distance_euclid(1) moveTowards_between(1-4))
  show ?thesis
    using snap whole grid moveTowards_step [OF range assms(5)]
      distance_error [OF range] moveTowards_near [OF range assms(5)]
    by simp
qed

lemma diag_euclid: "euclid 1000 1000 0 0 = sqrt 2000000"
  by (simp add: euclid_def)

lemma diag_sqrt: "1414 \<le> sqrt 2000000" "sqrt 2000000 \<le> 1415"
  by (rule real_le_rsqrt, simp) (rule real_le_lsqrt, simp_all)

lemma diag_far: "400 < distance 1000 1000 0 0"
proof -
  have "\<not> distance 1000 1000 0 0 \<le> 400"
    by (simp add: distance_le_iff)
  then show ?thesis by simp
qed

lemma diag_floor:
  assumes "\<bar>c - (1000 + (0 - 1000) * (400 / euclid 1000 1000 0 0))\<bar> \<le> 1 / 2 ^ 20"
  shows "\<lfloor>c\<rfloor> = 717"
proof -
  let ?s = "sqrt 2000000"
  have pos: "0 < ?s" by simp
  have "4000000 \<le> 2829 * ?s" "2826 * ?s < 4000000"
    using diag_sqrt by linarith+
  then have x: "400000 / ?s \<le> 2829 / 10" "2826 / 10 < 400000 / ?s"
    using pos by (simp_all add: field_simps)
  have "(1::real) / 2 ^ 20 \<le> 1 / 100" by simp
  then have "\<bar>c - (1000 + (0 - 1000) * (400 / ?s))\<bar> \<le> 1 / 100"
    using assms unfolding diag_euclid by linarith
  then have "\<bar>c - (1000 - 400000 / ?s)\<bar> \<le> 1 / 100"
    by simp
  then have "717 \<le> c" "c < 718"
    using x by linarith+
  then show ?thesis by linarith
qed

lemma moveTowards_diag: "moveTowards 1000 1000 0 0 400 = \<lparr>p_x = 717, p_y = 717\<rparr>"
proof -
  have "\<exists>cx cy.
      \<bar>cx - (1000 + (0 - 1000) * (400 / euclid 1000 1000 0 0))\<bar> \<le> 1 / 2 ^ 20 \<and>
      \<bar>cy - (1000 + (0 - 1000) * (400 / euclid 1000 1000 0 0))\<bar> \<le> 1 / 2 ^ 20 \<and>
      moveTowards 1000 1000 0 0 400 = \<lparr>p_x = of_int \<lfloor>cx\<rfloor>, p_y = of_int \<lfloor>cy\<rfloor>\<rparr>"
    using diag_far by (intro moveTowards_step(1)) simp_all
  then show ?thesis
    using diag_floor by auto
qed

lemma diag_overshoot: "400 < euclid 1000 1000 717 717" "400 < distance 1000 1000 717 717"
proof -
  have "\<not> euclid 1000 1000 717 717 \<le> 400"
    by (simp add: euclid_le_iff)
  then show "400 < euclid 1000 1000 717 717" by simp
  have "\<not> distance 1000 1000 717 717 \<le> 400"
    by (simp add: distance_le_iff)
  then show "400 < distance 1000 1000 717 717" by simp
qed

theorem moveTowards_bound_witness:
  "\<bar>1000::real\<bar> \<le> 2 ^ 20 \<and> \<bar>0::real\<bar> \<le> 2 ^ 20 \<and> (0::real) \<le> 400 \<and>
   (1000::real) \<in> \<int> \<and> (0::real) \<in> \<int> \<and> (400::real) \<in> \<int> \<and> (400::real) \<le> 2 ^ 21 \<and>
   400 < distance 1000 1000 0 0 \<and>
   moveTowards 1000 1000 0 0 400 = \<lparr>p_x = 717, p_y = 717\<rparr> \<and>
   euclid 1000 1000 717 717 < 400 + 3 / 2 \<and>
   min 1000 0 \<le> p_x (moveTowards 1000 1000 0 0 400) \<and>
   p_x (moveTowards 1000 1000 0 0 400) \<le> max 1000 0 \<and>
   \<not> euclid 1000 1000 0 0 \<le> 400 \<and>
   distance 8300 4500 8000 4500 \<le> 400 \<and>
   moveTowards 8300 4500 8000 4500 400 = \<lparr>p_x = 8000, p_y = 4500\<rparr>"
proof -
  have far: "400 < distance 1000 1000 0 0"
    by (rule diag_far)
  have ex: "\<exists>cx cy.
      \<bar>cx - (1000 + (0 - 1000) * (400 / euclid 1000 1000 0 0))\<bar> \<le> 1 / 2 ^ 20 \<and>
      \<bar>cy - (1000 + (0 - 1000) * (400 / euclid 1000 1000 0 0))\<bar> \<le> 1 / 2 ^ 20 \<and>
      moveTowards 1000 1000 0 0 400 = \<lparr>p_x = of_int \<lfloor>cx\<rfloor>, p_y = of_int \<lfloor>cy\<rfloor>\<rparr>"
    using moveTowards_bound [of 1000 1000 0 0 400] far by simp
  have m: "moveTowards 1000 1000 0 0 400 = \<lparr>p_x = 717, p_y = 717\<rparr>"
    using ex diag_floor by auto
  have near: "euclid 1000 1000 717 717 < 400 + 3 / 2"
    using moveTowards_bound [of 1000 1000 0 0 400] unfolding m by simp
  have box: "min 1000 0 \<le> p_x (moveTowards 1000 1000 0 0 400) \<and>
      p_x (moveTowards 1000 1000 0 0 400) \<le> max 1000 0"
    using moveTowards_bound [of 1000 1000 0 0 400] by simp
  have whole: "\<not> euclid 1000 1000 0 0 \<le> 400"
    using moveTowards_bound [of 1000 1000 0 0 400] far by simp
  have close: "distance 8300 4500 8000 4500 \<le> 400"
    by (simp add: distance_le_iff)
  have snap: "moveTowards 8300 4500 8000 4500 400 = \<lparr>p_x = 8000, p_y = 4500\<rparr>"
    using moveTowards_bound [of 8300 4500 8000 4500 400] close by simp
  show ?thesis
    using m near box close snap far whole by simp
qed

text \<open>
  The claim as stated fails: from (1000, 1000) towards (0, 0) with a step of 400 the exact
  point is about (717.16, 717.16), the result is (717, 717), at distance about 400.22 from
  the source.
\<close>

theorem moveTowards_exceeds_maxStep:
  "moveTowards 1000 1000 0 0 400 = \<lparr>p_x = 717, p_y = 717\<rparr> \<and>
   \<not> euclid 1000 1000 (p_x (moveTowards 1000 1000 0 0 400))
       (p_y (moveTowards 1000 1000 0 0 400)) \<le> 400 \<and>
   \<not> distance 1000 1000 (p_x (moveTowards 1000 1000 0 0 400))
       (p_y (moveTowards 1000 1000 0 0 400)) \<le> 400"
  using diag_overshoot by (simp add: moveTowards_diag)

text \<open>
  Where a coordinate of the exact point is a whole number the rounding decides the floor.
  From (1450, 0) towards (0, 0) with a step of 1000 the ratio \<open>1000 / 1450\<close> is rounded up,
  the product with \<open>- 1450\<close> is a little below \<open>- 1000\<close>, the sum a little below 450 and
  its floor 449. The same happens from (530, 0) with a step of 400 and from (7000, 1500)
  towards (7000, 3) with a step of 1000.
\<close>

lemma distance_axis:
  assumes "L \<in> \<int>" "0 \<le> L" "L \<le> 2 ^ 21"
  shows "distance L 0 0 0 = L"
proof -
  have "distance L 0 0 0 = rnd (euclid L 0 0 0)"
    using assms by (intro distance_int) simp_all
  also have "euclid L 0 0 0 = L" using assms(2) by (simp add: euclid_def)
  also have "rnd L = L" using assms by (intro rnd_Ints) simp_all
  finally show ?thesis .
qed

lemma moveTowards_1450: "moveTowards 1450 0 0 0 1000 = \<lparr>p_x = 449, p_y = 0\<rparr>"
proof -
  have d: "distance 1450 0 0 0 = 1450"
    by (rule distance_axis) simp_all
  have "roundEven (1000 / 1450 * 2 ^ 53) = 6211861554993788"
    by (rule roundEven_eval) simp
  then have r: "rnd (1000 / 1450) = 6211861554993788 / 2 ^ 53"
    using rnd_binade_down [of "1000 / 1450" 1] by simp
  have a: "rnd (0 - 1450) = - 1450"
    using rnd_minus [of 1450] by (simp add: rnd_numeral)
  have "roundEven (1450 * (6211861554993788 / 2 ^ 53) * 2 ^ 43) = 8796093022208001"
    by (rule roundEven_eval) simp
  then have "rnd (1450 * (6211861554993788 / 2 ^ 53)) = 8796093022208001 / 2 ^ 43"
    using rnd_binade_up [of 9 "1450 * (6211861554993788 / 2 ^ 53)"] by simp
  then have p: "rnd (- 1450 * (6211861554993788 / 2 ^ 53)) = - (8796093022208001 / 2 ^ 43)"
    using rnd_minus [of "1450 * (6211861554993788 / 2 ^ 53)"] by simp
  have "roundEven ((1450 + - (8796093022208001 / 2 ^ 43)) * 2 ^ 44) = 7916483719987198"
    by (rule roundEven_eval) simp
  then have c: "rnd (1450 + - (8796093022208001 / 2 ^ 43)) = 7916483719987198 / 2 ^ 44"
    using rnd_binade_up [of 8 "1450 + - (8796093022208001 / 2 ^ 43)"] by simp
  have z: "rnd (0 - 0) = 0" "rnd (0 * (6211861554993788 / 2 ^ 53)) = 0" "rnd (0 + 0) = 0"
    by simp_all
  have f: "\<lfloor>7916483719987198 / 2 ^ 44 :: real\<rfloor> = 449"
    by (simp add: floor_eq_iff)
  have far: "\<not> (1450::real) \<le> 1000" by simp
  show ?thesis
    unfolding moveTowards_def Let_def d r a p c z f if_not_P [OF far]
    by simp
qed

lemma moveTowards_530: "moveTowards 530 0 0 0 400 = \<lparr>p_x = 129, p_y = 0\<rparr>"
proof -
  have d: "distance 530 0 0 0 = 530"
    by (rule distance_axis) simp_all
  have "roundEven (400 / 530 * 2 ^ 53) = 6797886229993202"
    by (rule roundEven_eval) simp
  then have r: "rnd (400 / 530) = 6797886229993202 / 2 ^ 53"
    using rnd_binade_down [of "400 / 530" 1] by simp
  have a: "rnd (0 - 530) = - 530"
    using rnd_minus [of 530] by (simp add: rnd_numeral)
  have "roundEven (530 * (6797886229993202 / 2 ^ 53) * 2 ^ 44) = 7036874417766401"
    by (rule roundEven_eval) simp
  then have "rnd (530 * (6797886229993202 / 2 ^ 53)) = 7036874417766401 / 2 ^ 44"
    using rnd_binade_up [of 8 "530 * (6797886229993202 / 2 ^ 53)"] by simp
  then have p: "rnd (- 530 * (6797886229993202 / 2 ^ 53)) = - (7036874417766401 / 2 ^ 44)"
    using rnd_minus [of "530 * (6797886229993202 / 2 ^ 53)"] by simp
  have "roundEven ((530 + - (7036874417766401 / 2 ^ 44)) * 2 ^ 45) = 4573968371548158"
    by (rule roundEven_eval) simp
  then have c: "rnd (530 + - (7036874417766401 / 2 ^ 44)) = 4573968371548158 / 2 ^ 45"
    using rnd_binade_up [of 7 "530 + - (7036874417766401 / 2 ^ 44)"] by simp
  have z: "rnd (0 - 0) = 0" "rnd (0 * (6797886229993202 / 2 ^ 53)) = 0" "rnd (0 + 0) = 0"
    by simp_all
  have f: "\<lfloor>4573968371548158 / 2 ^ 45 :: real\<rfloor> = 129"
    by (simp add: floor_eq_iff)
  have far: "\<not> (530::real) \<le> 400" by simp
  show ?thesis
    unfolding moveTowards_def Let_def d r a p c z f if_not_P [OF far]
    by simp
qed

lemma moveTowards_1497: "moveTowards 7000 1500 7000 3 1000 = \<lparr>p_x = 7000, p_y = 499\<rparr>"
proof -
  have "sqrt 2241009 = 1497"
    by (rule real_sqrt_unique) simp_all
  then have "euclid 7000 1500 7000 3 = 1497"
    by (simp add: euclid_def)
  moreover have "distance 7000 1500 7000 3 = rnd (euclid 7000 1500 7000 3)"
    by (intro distance_int) simp_all
  ultimately have d: "distance 7000 1500 7000 3 = 1497"
    by (simp add: rnd_numeral)
  have "roundEven (1000 / 1497 * 2 ^ 53) = 6016833169499661"
    by (rule roundEven_eval) simp
  then have r: "rnd (1000 / 1497) = 6016833169499661 / 2 ^ 53"
    using rnd_binade_down [of "1000 / 1497" 1] by simp
  have a: "rnd (3 - 1500) = - 1497"
    using rnd_minus [of 1497] by (simp add: rnd_numeral)
  have "roundEven (1497 * (6016833169499661 / 2 ^ 53) * 2 ^ 43) = 8796093022208001"
    by (rule roundEven_eval) simp
  then have "rnd (1497 * (6016833169499661 / 2 ^ 53)) = 8796093022208001 / 2 ^ 43"
    using rnd_binade_up [of 9 "1497 * (6016833169499661 / 2 ^ 53)"] by simp
  then have p: "rnd (- 1497 * (6016833169499661 / 2 ^ 53)) = - (8796093022208001 / 2 ^ 43)"
    using rnd_minus [of "1497 * (6016833169499661 / 2 ^ 53)"] by simp
  have "roundEven ((1500 + - (8796093022208001 / 2 ^ 43)) * 2 ^ 44) = 8796093022207998"
    by (rule roundEven_eval) simp
  then have c: "rnd (1500 + - (8796093022208001 / 2 ^ 43)) = 8796093022207998 / 2 ^ 44"
    using rnd_binade_up [of 8 "1500 + - (8796093022208001 / 2 ^ 43)"] by simp
  have z: "rnd (7000 - 7000) = 0" "rnd (0 * (6016833169499661 / 2 ^ 53)) = 0"
    "rnd (7000 + 0) = 7000"
    by (simp_all add: rnd_numeral)
  have f: "\<lfloor>8796093022207998 / 2 ^ 44 :: real\<rfloor> = 499"
    by (simp add: floor_eq_iff)
  have far: "\<not> (1497::real) \<le> 1000" by simp
  show ?thesis
    unfolding moveTowards_def Let_def d r a p c z f if_not_P [OF far]
    by simp
qed

text \<open>
  The restriction to whole coordinates is needed for the last part: towards (- 1 / 2, - 1000)
  the floor takes the first coordinate to - 1, beyond the target's.
\<close>

lemma moveTowards_fraction:
  "p_x (moveTowards 0 0 (- 1 / 2) (- 1000) 400) = - 1"
proof -
  have b: "\<bar>0::real\<bar> \<le> 2 ^ 20" "\<bar>- 1 / 2 :: real\<bar> \<le> 2 ^ 20" "\<bar>- 1000 :: real\<bar> \<le> 2 ^ 20"
    by simp_all
  let ?D = "euclid 0 0 (- 1 / 2) (- 1000)"
  have D: "?D = sqrt (1000000 + 1 / 4)"
    by (simp add: euclid_def power2_eq_square)
  have big: "1000 \<le> ?D"
    unfolding D by (rule real_le_rsqrt) simp
  have "\<bar>distance 0 0 (- 1 / 2) (- 1000) - ?D\<bar> \<le> 1 / 2 ^ 26"
    using b by (intro distance_error) simp_all
  moreover have "(1::real) / 2 ^ 26 \<le> 1" by simp
  ultimately have far: "400 < distance 0 0 (- 1 / 2) (- 1000)"
    using big by linarith
  have "\<exists>cx cy.
      \<bar>cx - (0 + (- 1 / 2 - 0) * (400 / ?D))\<bar> \<le> 1 / 2 ^ 20 \<and>
      \<bar>cy - (0 + (- 1000 - 0) * (400 / ?D))\<bar> \<le> 1 / 2 ^ 20 \<and>
      moveTowards 0 0 (- 1 / 2) (- 1000) 400 = \<lparr>p_x = of_int \<lfloor>cx\<rfloor>, p_y = of_int \<lfloor>cy\<rfloor>\<rparr>"
    using far by (intro moveTowards_step(1)) simp_all
  then obtain cx cy where c: "\<bar>cx - (0 + (- 1 / 2 - 0) * (400 / ?D))\<bar> \<le> 1 / 2 ^ 20"
      "\<bar>cy - (0 + (- 1000 - 0) * (400 / ?D))\<bar> \<le> 1 / 2 ^ 20"
      "moveTowards 0 0 (- 1 / 2) (- 1000) 400 = \<lparr>p_x = of_int \<lfloor>cx\<rfloor>, p_y = of_int \<lfloor>cy\<rfloor>\<rparr>"
    by blast
  have small: "?D \<le> 1001"
    unfolding D by (rule real_le_lsqrt) simp_all
  define w where "w = 200 / ?D"
  have w: "19 / 100 \<le> w" "w \<le> 1 / 5"
    using big small by (simp_all add: w_def field_simps)
  have "0 + (- 1 / 2 - 0) * (400 / ?D) = - w"
    by (simp add: w_def)
  then have "\<bar>cx + w\<bar> \<le> 1 / 2 ^ 20"
    using c(1) by simp
  moreover have "(1::real) / 2 ^ 20 \<le> 1 / 100" by simp
  ultimately have "- 1 \<le> cx" "cx < 0"
    using w by linarith+
  then have "\<lfloor>cx\<rfloor> = - 1"
    by linarith
  then show ?thesis
    unfolding c(3) by simp
qed

section \<open>C3: the elimination pass\<close>

text \<open>
  C3. After the turn a hostile is alive exactly if it was alive and, after its move, farther
  than 2000 units from the avatar's new position. The score grows, for the k-th elimination
  of the turn (k from 1), by the square of the number of friendlies alive in the input
  state times 10 times the entry \<open>min (k - 1) 14\<close> of the fixed table; the number of
  friendlies is the one of the input state for every k.
\<close>

theorem elimination_pass:
  "map z_alive (zombies (simulateTurn s tx ty)) =
     map (\<lambda>z. z_alive z \<and>
            \<not> distance (p_x (richAfter s tx ty)) (p_y (richAfter s tx ty)) (z_x z) (z_y z)
                \<le> 2000)
       (movedZombies s) \<and>
   killsThisTurn s tx ty =
     length (filter (\<lambda>z. z_alive z \<and>
            distance (p_x (richAfter s tx ty)) (p_y (richAfter s tx ty)) (z_x z) (z_y z)
              \<le> 2000) (movedZombies s)) \<and>
   aliveHumansOf s = length (filter h_alive (humans s)) \<and>
   score (simulateTurn s tx ty) =
     score s +
     (\<Sum>k = 1..killsThisTurn s tx ty.
        (int (aliveHumansOf s))\<^sup>2 * 10 *
        ([1, 2, 3, 5, 8, 13, 21, 34, 55, 89, 144, 233, 377, 610, 987] ! min (k - 1) 14))"
proof (intro conjI)
  show "map z_alive (zombies (simulateTurn s tx ty)) =
     map (\<lambda>z. z_alive z \<and>
            \<not> distance (p_x (richAfter s tx ty)) (p_y (richAfter s tx ty)) (z_x z) (z_y z)
                \<le> 2000)
       (movedZombies s)"
    by (auto simp add: simulateTurn_alive_flags survivingZombies_def inRange_def RICH_RANGE_def)
  show "killsThisTurn s tx ty =
     length (filter (\<lambda>z. z_alive z \<and>
            distance (p_x (richAfter s tx ty)) (p_y (richAfter s tx ty)) (z_x z) (z_y z)
              \<le> 2000) (movedZombies s))"
    by (simp add: killsThisTurn_def inRange_fun RICH_RANGE_def)
  show "aliveHumansOf s = length (filter h_alive (humans s))"
    by (simp add: aliveHumansOf_def)
  have "(\<Sum>k = 1..killsThisTurn s tx ty.
        (int (aliveHumansOf s))\<^sup>2 * 10 *
        ([1, 2, 3, 5, 8, 13, 21, 34, 55, 89, 144, 233, 377, 610, 987] ! min (k - 1) 14)) =
      (\<Sum>i<killsThisTurn s tx ty.
         int (aliveHumansOf s) * int (aliveHumansOf s) * 10 * fibonacci i)"
    by (simp add: sum.atLeast1_atMost_eq fibonacci_table power2_eq_square)
  then show "score (simulateTurn s tx ty) =
     score s +
     (\<Sum>k = 1..killsThisTurn s tx ty.
        (int (aliveHumansOf s))\<^sup>2 * 10 *
        ([1, 2, 3, 5, 8, 13, 21, 34, 55, 89, 144, 233, 377, 610, 987] ! min (k - 1) 14))"
    by (simp only: simulateTurn_score)
qed

text \<open>
  In \<open>packWorld\<close> two hostiles are eliminated with three friendlies alive: 90 for the
  first, 180 for the second.
\<close>

theorem elimination_pass_witness:
  "map z_alive (zombies (simulateTurn packWorld 8000 4500)) = [False, False, True, False] \<and>
   killsThisTurn packWorld 8000 4500 = 2 \<and> aliveHumansOf packWorld = 3 \<and>
   score (simulateTurn packWorld 8000 4500) = score packWorld + (3\<^sup>2 * 10 * 1 + 3\<^sup>2 * 10 * 2)"
proof -
  have a: "aliveHumansOf packWorld = 3"
    by (simp add: aliveHumansOf_def packWorld_def)
  have "{1..2::nat} = {1, 2}"
    by auto
  then have s: "(\<Sum>k = 1..2::nat. f k) = f 1 + f 2" for f :: "nat \<Rightarrow> int"
    by simp
  show ?thesis
    using elimination_pass [of packWorld 8000 4500]
    unfolding packWorld_kills packWorld_moved packWorld_rich a s
    by (simp add: distance_le_iff)
qed

section \<open>C4: the nearest target\<close>

lemma closestLoop_spec:
  "closestLoop z hs (c, m) = (c', m') \<Longrightarrow>
     ((c', m') = (c, m) \<and> (\<forall>h\<in>set hs. h_alive h \<longrightarrow> m \<le> hdist z h)) \<or>
     (\<exists>i<length hs. h_alive (hs ! i) \<and> c' = hpos (hs ! i) \<and> m' = hdist z (hs ! i) \<and>
        m' < m \<and>
        (\<forall>j<length hs. h_alive (hs ! j) \<longrightarrow> m' \<le> hdist z (hs ! j)) \<and>
        (\<forall>j<i. h_alive (hs ! j) \<longrightarrow> m' < hdist z (hs ! j)))"
proof (induction hs arbitrary: c m)
  case Nil
  then show ?case by simp
next
  case (Cons h hs)
  let ?Q = "\<lambda>i c' m' m hs. h_alive (hs ! i) \<and> c' = hpos (hs ! i) \<and>
        m' = hdist z (hs ! i) \<and> m' < m \<and>
        (\<forall>j<length hs. h_alive (hs ! j) \<longrightarrow> m' \<le> hdist z (hs ! j)) \<and>
        (\<forall>j<i. h_alive (hs ! j) \<longrightarrow> m' < hdist z (hs ! j))"
  have shift: "\<exists>k<length (h # hs). ?Q k c' m' m (h # hs)"
    if "i < length hs \<and> ?Q i c' m' m0 hs" and "m0 \<le> m" and "h_alive h \<longrightarrow> m' < hdist z h"
    for i m0
  proof -
    have "\<forall>j<length (h # hs). h_alive ((h # hs) ! j) \<longrightarrow> m' \<le> hdist z ((h # hs) ! j)"
      using that by (auto simp: nth_Cons split: nat.splits)
    moreover have "\<forall>j<Suc i. h_alive ((h # hs) ! j) \<longrightarrow> m' < hdist z ((h # hs) ! j)"
      using that by (auto simp: nth_Cons split: nat.splits)
    ultimately have "Suc i < length (h # hs) \<and> ?Q (Suc i) c' m' m (h # hs)"
      using that by simp
    then show ?thesis by blast
  qed
  show ?case
  proof (cases "h_alive h")
    case False
    with Cons.prems have "closestLoop z hs (c, m) = (c', m')" by simp
    from Cons.IH [OF this] show ?thesis
    proof
      assume "(c', m') = (c, m) \<and> (\<forall>h\<in>set hs. h_alive h \<longrightarrow> m \<le> hdist z h)"
      then show ?thesis using False by simp
    next
      assume "\<exists>i<length hs. ?Q i c' m' m hs"
      then obtain i where q: "i < length hs \<and> ?Q i c' m' m hs" by blast
      have "\<exists>k<length (h # hs). ?Q k c' m' m (h # hs)"
        by (rule shift [OF q]) (simp_all add: False)
      then show ?thesis by blast
    qed
  next
    case True
    show ?thesis
    proof (cases "hdist z h < m")
      case closer: True
      with True Cons.prems have "closestLoop z hs (hpos h, hdist z h) = (c', m')"
        by (simp add: hdist_def hpos_def)
      from Cons.IH [OF this] show ?thesis
      proof
        assume a: "(c', m') = (hpos h, hdist z h) \<and>
            (\<forall>x\<in>set hs. h_alive x \<longrightarrow> hdist z h \<le> hdist z x)"
        have "\<forall>j<length (h # hs). h_alive ((h # hs) ! j) \<longrightarrow> m' \<le> hdist z ((h # hs) ! j)"
          using a by (auto simp: nth_Cons split: nat.splits)
        then have "0 < length (h # hs) \<and> ?Q 0 c' m' m (h # hs)"
          using a True closer by simp
        then show ?thesis by blast
      next
        assume "\<exists>i<length hs. ?Q i c' m' (hdist z h) hs"
        then obtain i where q: "i < length hs \<and> ?Q i c' m' (hdist z h) hs" by blast
        have "\<exists>k<length (h # hs). ?Q k c' m' m (h # hs)"
          by (rule shift [OF q]) (use q closer in simp_all)
        then show ?thesis by blast
      qed
    next
      case far: False
      with True Cons.prems have "closestLoop z hs (c, m) = (c', m')"
        by (simp add: hdist_def)
      from Cons.IH [OF this] show ?thesis
      proof
        assume "(c', m') = (c, m) \<and> (\<forall>h\<in>set hs. h_alive h \<longrightarrow> m \<le> hdist z h)"
        then show ?thesis using far by simp
      next
        assume "\<exists>i<length hs. ?Q i c' m' m hs"
        then obtain i where q: "i < length hs \<and> ?Q i c' m' m hs" by blast
        have "\<exists>k<length (h # hs). ?Q k c' m' m (h # hs)"
          by (rule shift [OF q]) (use q far in auto)
        then show ?thesis by blast
      qed
    qed
  qed
qed

text \<open>
  C4. \<open>findClosestHuman\<close> either returns the avatar's position, and then no alive
  friendly is strictly closer to the hostile than the avatar; or it returns the position of
  an alive friendly that is strictly closer than the avatar, at most as far as every alive
  friendly, and strictly closer than every alive friendly before it in the list (on equal
  distance the earlier one is kept).
\<close>

theorem findClosestHuman_nearest:
  "(findClosestHuman z hs r = \<lparr>p_x = p_x r, p_y = p_y r\<rparr> \<and>
    (\<forall>h\<in>set hs. h_alive h \<longrightarrow>
       distance (z_x z) (z_y z) (p_x r) (p_y r) \<le> hdist z h)) \<or>
   (\<exists>i<length hs. h_alive (hs ! i) \<and> findClosestHuman z hs r = hpos (hs ! i) \<and>
      hdist z (hs ! i) < distance (z_x z) (z_y z) (p_x r) (p_y r) \<and>
      (\<forall>j<length hs. h_alive (hs ! j) \<longrightarrow> hdist z (hs ! i) \<le> hdist z (hs ! j)) \<and>
      (\<forall>j<i. h_alive (hs ! j) \<longrightarrow> hdist z (hs ! i) < hdist z (hs ! j)))"
proof -
  obtain c' m' where cl: "closestLoop z hs
      (\<lparr>p_x = p_x r, p_y = p_y r\<rparr>, distance (z_x z) (z_y z) (p_x r) (p_y r)) = (c', m')"
    by (cases "closestLoop z hs
      (\<lparr>p_x = p_x r, p_y = p_y r\<rparr>, distance (z_x z) (z_y z) (p_x r) (p_y r))") blast
  then have f: "findClosestHuman z hs r = c'"
    by (simp add: findClosestHuman_def)
  from closestLoop_spec [OF cl] show ?thesis
    unfolding f by blast
qed

text \<open>
  A dead friendly is skipped although it is the closest, the first of two friendlies at
  distance 300 is kept, an avatar at distance 300 is kept against both, and the avatar is
  the target when there is no friendly.
\<close>

theorem findClosestHuman_nearest_witness:
  "findClosestHuman tieZombie tieHumans \<lparr>p_x = 1000, p_y = 0\<rparr> = \<lparr>p_x = 0, p_y = 300\<rparr> \<and>
   findClosestHuman tieZombie tieHumans \<lparr>p_x = 300, p_y = 0\<rparr> = \<lparr>p_x = 300, p_y = 0\<rparr> \<and>
   findClosestHuman tieZombie [] \<lparr>p_x = 1000, p_y = 0\<rparr> = \<lparr>p_x = 1000, p_y = 0\<rparr>"
proof (intro conjI)
  show "findClosestHuman tieZombie tieHumans \<lparr>p_x = 1000, p_y = 0\<rparr> = \<lparr>p_x = 0, p_y = 300\<rparr>"
    using findClosestHuman_nearest [of tieZombie tieHumans "\<lparr>p_x = 1000, p_y = 0\<rparr>"]
    by (auto simp add: tieZombie_def tieHumans_def hdist_def hpos_def less_Suc_eq
          distance_le_distance_iff distance_less_distance_iff)
  show "findClosestHuman tieZombie tieHumans \<lparr>p_x = 300, p_y = 0\<rparr> = \<lparr>p_x = 300, p_y = 0\<rparr>"
    using findClosestHuman_nearest [of tieZombie tieHumans "\<lparr>p_x = 300, p_y = 0\<rparr>"]
    by (auto simp add: tieZombie_def tieHumans_def hdist_def hpos_def less_Suc_eq
          distance_le_distance_iff distance_less_distance_iff)
  show "findClosestHuman tieZombie [] \<lparr>p_x = 1000, p_y = 0\<rparr> = \<lparr>p_x = 1000, p_y = 0\<rparr>"
    using findClosestHuman_nearest [of tieZombie "[]" "\<lparr>p_x = 1000, p_y = 0\<rparr>"]
    by simp
qed

section \<open>C5: the turn simulator does not touch its input\<close>

text \<open>
  The statements on the store compute what the pure functions compute: on the store
  \<open>layout H v\<close> each phase yields \<open>layout H\<close> of the value after the pure phase.
\<close>

lemma allocState_eq: "allocState H v = (layout H v, newRef H)"
  by (simp add: layout_def newRef_def allocState_def Let_def)

lemma layout_fields [simp]:
  "points (layout H v) = points H @ [rich v]"
  "humanObjs (layout H v) = humanObjs H @ humans v"
  "zombieObjs (layout H v) = zombieObjs H @ zombies v"
  "humanArrays (layout H v) =
     humanArrays H @ [[length (humanObjs H) ..< length (humanObjs H) + length (humans v)]]"
  "zombieArrays (layout H v) =
     zombieArrays H @ [[length (zombieObjs H) ..< length (zombieObjs H) + length (zombies v)]]"
  "stateObjs (layout H v) = stateObjs H @ [stateObjOf H v]"
  by (simp_all add: layout_def allocState_def stateObjOf_def Let_def)

lemma layout_eqI:
  "rich v = rich w \<Longrightarrow> humans v = humans w \<Longrightarrow> zombies v = zombies w \<Longrightarrow>
   score v = score w \<Longrightarrow> turn v = turn w \<Longrightarrow> gameOver v = gameOver w \<Longrightarrow> won v = won w \<Longrightarrow>
   message v = message w \<Longrightarrow> layout H v = layout H w"
  by (simp add: layout_def allocState_def)

lemma lookup_append_new [simp]: "lookup (xs @ [x]) (length xs) = Some x"
  by (simp add: lookup_def)

lemma lookup_append_mid [simp]: "lookup (xs @ y # ys) (length xs) = Some y"
  by (simp add: lookup_def)

lemma lookup_append_mid2 [simp]:
  "lookup (xs @ ys @ z # zs) (length xs + length ys) = Some z"
  using lookup_append_mid [of "xs @ ys" z zs] by simp

lemma lookupAll_eq:
  "lookupAll xs as = (if \<forall>a\<in>set as. a < length xs then Some (map ((!) xs) as) else None)"
  by (induction as) (auto simp: lookup_def)

lemma map_nth_append_upt:
  "map ((!) (pre @ ys)) [length pre ..< length pre + length ys] = ys"
  by (rule nth_equalityI) (auto simp: nth_append)

lemma lookupAll_new [simp]:
  "lookupAll (pre @ ys) [length pre ..< length pre + length ys] = Some ys"
  by (simp add: lookupAll_eq map_nth_append_upt)

lemma readHumans_layout [simp]:
  "readHumans (layout H v) (length (humanArrays H)) = Some (humans v)"
  by (simp add: readHumans_def)

lemma readZombies_layout [simp]:
  "readZombies (layout H v) (length (zombieArrays H)) = Some (zombies v)"
  by (simp add: readZombies_def)

lemma stateObjOf_fields [simp]:
  "o_rich (stateObjOf H v) = length (points H)"
  "o_humans (stateObjOf H v) = length (humanArrays H)"
  "o_zombies (stateObjOf H v) = length (zombieArrays H)"
  "o_score (stateObjOf H v) = score v"
  "o_turn (stateObjOf H v) = turn v"
  "o_gameOver (stateObjOf H v) = gameOver v"
  "o_won (stateObjOf H v) = won v"
  "o_message (stateObjOf H v) = message v"
  by (simp_all add: stateObjOf_def)

lemma readState_layout: "readState (layout H v) (newRef H) = Some v"
  by (simp add: readState_def newRef_def)

lemma layout_zombies:
  "length ys = length (zombies v) \<Longrightarrow>
     (layout H v)\<lparr>zombieObjs := zombieObjs H @ ys\<rparr> = layout H (v\<lparr>zombies := ys\<rparr>)"
  by (simp add: layout_def allocState_def)

lemma layout_humans:
  "length ys = length (humans v) \<Longrightarrow>
     (layout H v)\<lparr>humanObjs := humanObjs H @ ys\<rparr> = layout H (v\<lparr>humans := ys\<rparr>)"
  by (simp add: layout_def allocState_def)

lemma upt_step:
  "[length pre ..< length pre + length (y # ys)] =
     length pre # [length (pre @ [z]) ..< length (pre @ [z]) + length ys]"
  by (simp del: upt_Suc add: upt_conv_Cons)

lemma forEach_zombieObjs:
  assumes "\<And>pre y post.
     body (length pre) (L\<lparr>zombieObjs := pre @ y # post\<rparr>) = Some (L\<lparr>zombieObjs := pre @ g y # post\<rparr>)"
  shows "forEachH body [length pre ..< length pre + length ys] (L\<lparr>zombieObjs := pre @ ys\<rparr>) =
     Some (L\<lparr>zombieObjs := pre @ map g ys\<rparr>)"
proof (induction ys arbitrary: pre)
  case Nil
  then show ?case by simp
next
  case (Cons y ys)
  show ?case
    unfolding upt_step [of pre y ys "g y"]
    using Cons.IH [of "pre @ [g y]"] by (simp add: assms del: upt_Suc)
qed

lemma forEach_humanObjs:
  assumes "\<And>pre y post.
     body (length pre) (L\<lparr>humanObjs := pre @ y # post\<rparr>) = Some (L\<lparr>humanObjs := pre @ g y # post\<rparr>)"
  shows "forEachH body [length pre ..< length pre + length ys] (L\<lparr>humanObjs := pre @ ys\<rparr>) =
     Some (L\<lparr>humanObjs := pre @ map g ys\<rparr>)"
proof (induction ys arbitrary: pre)
  case Nil
  then show ?case by simp
next
  case (Cons y ys)
  show ?case
    unfolding upt_step [of pre y ys "g y"]
    using Cons.IH [of "pre @ [g y]"] by (simp add: assms del: upt_Suc)
qed

lemma readHumans_zombieObjs [simp]: "readHumans (H\<lparr>zombieObjs := zs\<rparr>) a = readHumans H a"
  by (simp add: readHumans_def)

lemma phase_incTurn:
  "incTurnH (newRef H) (layout H v) = Some (layout H (v\<lparr>turn := turn v + 1\<rparr>))"
  by (simp add: incTurnH_def newRef_def layout_def allocState_def stateObjOf_def)

lemma phase_moveZombies:
  "forEachH (moveZombieH (newRef H))
     [length (zombieObjs H) ..< length (zombieObjs H) + length (zombies v)] (layout H v) =
   Some (layout H (v\<lparr>zombies := map (moveZombie (humans v) (rich v)) (zombies v)\<rparr>))"
proof -
  let ?L = "layout H v"
  have "forEachH (moveZombieH (newRef H))
      [length (zombieObjs H) ..< length (zombieObjs H) + length (zombies v)]
      (?L\<lparr>zombieObjs := zombieObjs H @ zombies v\<rparr>) =
    Some (?L\<lparr>zombieObjs := zombieObjs H @ map (moveZombie (humans v) (rich v)) (zombies v)\<rparr>)"
    by (rule forEach_zombieObjs)
      (simp add: moveZombieH_def newRef_def moveZombie_def Let_def)
  moreover have "?L\<lparr>zombieObjs := zombieObjs H @ zombies v\<rparr> = ?L"
    by (simp add: layout_def allocState_def)
  ultimately show ?thesis
    by (simp add: layout_zombies)
qed

lemma phase_moveRich:
  "moveRichH (newRef H) tx ty (layout H v) =
   Some (layout H (v\<lparr>rich :=
      (rich v)\<lparr>p_x := p_x (moveTowards (p_x (rich v)) (p_y (rich v)) tx ty RICH_SPEED),
               p_y := p_y (moveTowards (p_x (rich v)) (p_y (rich v)) tx ty RICH_SPEED)\<rparr>\<rparr>))"
  by (simp add: moveRichH_def newRef_def Let_def)

lemma killLoopH_refines:
  assumes "lookup (points L) (o_rich so) = Some r"
  shows "killLoopH (length S) a [length pre ..< length pre + length ys] kd
           (L\<lparr>zombieObjs := pre @ ys, stateObjs := S @ [so\<lparr>o_score := sc\<rparr>]\<rparr>) =
         Some (fst (snd (killZombies r a ys (kd, sc))),
               L\<lparr>zombieObjs := pre @ fst (killZombies r a ys (kd, sc)),
                 stateObjs := S @ [so\<lparr>o_score := snd (snd (killZombies r a ys (kd, sc)))\<rparr>]\<rparr>)"
proof (induction ys arbitrary: pre kd sc)
  case Nil
  then show ?case by simp
next
  case (Cons y ys)
  show ?case
  proof (cases "z_alive y \<and> distance (p_x r) (p_y r) (z_x y) (z_y y) \<le> RICH_RANGE")
    case True
    show ?thesis
      unfolding upt_step [of pre y ys "y\<lparr>z_alive := False\<rparr>"]
      using True assms
        Cons.IH [of "pre @ [y\<lparr>z_alive := False\<rparr>]" "kd + 1"
          "sc + int a * int a * 10 * fibonacci kd"]
      by (simp add: Let_def case_prod_beta del: upt_Suc)
  next
    case False
    show ?thesis
      unfolding upt_step [of pre y ys y]
      using False assms Cons.IH [of "pre @ [y]" kd sc]
      by (auto simp add: Let_def case_prod_beta simp del: upt_Suc)
  qed
qed

lemma phase_kill:
  "killLoopH (newRef H) a
     [length (zombieObjs H) ..< length (zombieObjs H) + length (zombies v)] 0 (layout H v) =
   Some (fst (snd (killZombies (rich v) a (zombies v) (0, score v))),
         layout H (v\<lparr>zombies := fst (killZombies (rich v) a (zombies v) (0, score v)),
                     score := snd (snd (killZombies (rich v) a (zombies v) (0, score v)))\<rparr>))"
proof -
  let ?L = "layout H v" and ?so = "stateObjOf H v"
  have l: "lookup (points ?L) (o_rich ?so) = Some (rich v)"
    by simp
  have start: "?L\<lparr>zombieObjs := zombieObjs H @ zombies v,
      stateObjs := stateObjs H @ [?so\<lparr>o_score := score v\<rparr>]\<rparr> = ?L"
    by (simp add: layout_def allocState_def stateObjOf_def)
  have len: "length (fst (killZombies (rich v) a (zombies v) (0, score v))) = length (zombies v)"
    by (simp add: killZombies_fst)
  have fin: "?L\<lparr>zombieObjs := zombieObjs H @ zs,
      stateObjs := stateObjs H @ [?so\<lparr>o_score := sc\<rparr>]\<rparr> =
      layout H (v\<lparr>zombies := zs, score := sc\<rparr>)" if "length zs = length (zombies v)" for zs sc
    using that by (simp add: layout_def allocState_def stateObjOf_def)
  show ?thesis
    using killLoopH_refines [OF l, of "stateObjs H" a "zombieObjs H" "zombies v" 0 "score v"]
    unfolding start fin [OF len] by (simp add: newRef_def)
qed

lemma eatInner_refines:
  assumes "lookup (zombieObjs L) za = Some z"
  shows "forEachH (eatInnerH za) [length pre ..< length pre + length hs]
           (L\<lparr>humanObjs := pre @ hs\<rparr>) =
         Some (L\<lparr>humanObjs := pre @ map (eatHuman z) hs\<rparr>)"
  by (rule forEach_humanObjs) (simp add: eatInnerH_def eatHuman_def assms)

lemma eatOuter_refines:
  assumes "zombieObjs L = Z0 @ dn @ todo"
    and "lookup (stateObjs L) q = Some so"
    and "lookup (humanArrays L) (o_humans so) = Some [length Hm0 ..< length Hm0 + n]"
    and "length hs = n"
  shows "forEachH (eatOuterH q) [length (Z0 @ dn) ..< length (Z0 @ dn) + length todo]
           (L\<lparr>humanObjs := Hm0 @ hs\<rparr>) =
         Some (L\<lparr>humanObjs := Hm0 @ eatHumans todo hs\<rparr>)"
  using assms(1,4)
proof (induction todo arbitrary: dn hs)
  case Nil
  then show ?case by simp
next
  case (Cons z todo)
  have z: "lookup (zombieObjs L) (length (Z0 @ dn)) = Some z"
    using Cons.prems(1) by simp
  have nxt: "zombieObjs L = Z0 @ (dn @ [z]) @ todo"
    using Cons.prems(1) by simp
  show ?case
  proof (cases "z_alive z")
    case False
    show ?thesis
      unfolding upt_step [of "Z0 @ dn" z todo z]
      using False z Cons.IH [OF nxt Cons.prems(2)]
      by (simp add: eatOuterH_def del: upt_Suc)
  next
    case True
    have inner: "forEachH (eatInnerH (length (Z0 @ dn))) [length Hm0 ..< length Hm0 + n]
           (L\<lparr>humanObjs := Hm0 @ hs\<rparr>) =
         Some (L\<lparr>humanObjs := Hm0 @ map (eatHuman z) hs\<rparr>)"
      using eatInner_refines [OF z, of Hm0 hs] Cons.prems(2) by simp
    have len: "length (map (eatHuman z) hs) = n"
      using Cons.prems(2) by simp
    show ?thesis
      unfolding upt_step [of "Z0 @ dn" z todo z]
      using True z inner assms(2,3) Cons.IH [OF nxt len]
      by (simp add: eatOuterH_def del: upt_Suc)
  qed
qed

lemma phase_eat:
  "forEachH (eatOuterH (newRef H))
     [length (zombieObjs H) ..< length (zombieObjs H) + length (zombies v)] (layout H v) =
   Some (layout H (v\<lparr>humans := eatHumans (zombies v) (humans v)\<rparr>))"
proof -
  let ?L = "layout H v"
  have "forEachH (eatOuterH (newRef H))
      [length (zombieObjs H @ []) ..< length (zombieObjs H @ []) + length (zombies v)]
      (?L\<lparr>humanObjs := humanObjs H @ humans v\<rparr>)
    = Some (?L\<lparr>humanObjs := humanObjs H @ eatHumans (zombies v) (humans v)\<rparr>)"
    by (rule eatOuter_refines [where so = "stateObjOf H v" and n = "length (humans v)"])
      (simp_all add: newRef_def)
  moreover have "?L\<lparr>humanObjs := humanObjs H @ humans v\<rparr> = ?L"
    by (simp add: layout_def allocState_def)
  ultimately show ?thesis
    by (simp add: layout_humans)
qed

lemma phase_updateNext:
  "forEachH (updateNextH (newRef H))
     [length (zombieObjs H) ..< length (zombieObjs H) + length (zombies v)] (layout H v) =
   Some (layout H (v\<lparr>zombies := map (updateNext (humans v) (rich v)) (zombies v)\<rparr>))"
proof -
  let ?L = "layout H v"
  have "forEachH (updateNextH (newRef H))
      [length (zombieObjs H) ..< length (zombieObjs H) + length (zombies v)]
      (?L\<lparr>zombieObjs := zombieObjs H @ zombies v\<rparr>) =
    Some (?L\<lparr>zombieObjs := zombieObjs H @ map (updateNext (humans v) (rich v)) (zombies v)\<rparr>)"
    by (rule forEach_zombieObjs)
      (simp add: updateNextH_def newRef_def updateNext_def Let_def)
  moreover have "?L\<lparr>zombieObjs := zombieObjs H @ zombies v\<rparr> = ?L"
    by (simp add: layout_def allocState_def)
  ultimately show ?thesis
    by (simp add: layout_zombies)
qed

lemma phase_checkEnd:
  "checkEndH (newRef H) (layout H v) = Some (layout H (checkEnd v))"
  by (simp add: checkEndH_def checkEnd_def newRef_def Let_def)

lemma phase_moveZombies':
  "n = length (zombies v) \<Longrightarrow>
   forEachH (moveZombieH (newRef H)) [length (zombieObjs H) ..< length (zombieObjs H) + n]
     (layout H v) =
   Some (layout H (v\<lparr>zombies := map (moveZombie (humans v) (rich v)) (zombies v)\<rparr>))"
  by (simp add: phase_moveZombies)

lemma phase_kill':
  "n = length (zombies v) \<Longrightarrow>
   killLoopH (newRef H) a [length (zombieObjs H) ..< length (zombieObjs H) + n] 0 (layout H v) =
   Some (fst (snd (killZombies (rich v) a (zombies v) (0, score v))),
         layout H (v\<lparr>zombies := fst (killZombies (rich v) a (zombies v) (0, score v)),
                     score := snd (snd (killZombies (rich v) a (zombies v) (0, score v)))\<rparr>))"
  by (simp add: phase_kill)

lemma phase_eat':
  "n = length (zombies v) \<Longrightarrow>
   forEachH (eatOuterH (newRef H)) [length (zombieObjs H) ..< length (zombieObjs H) + n]
     (layout H v) =
   Some (layout H (v\<lparr>humans := eatHumans (zombies v) (humans v)\<rparr>))"
  by (simp add: phase_eat)

lemma phase_updateNext':
  "n = length (zombies v) \<Longrightarrow>
   forEachH (updateNextH (newRef H)) [length (zombieObjs H) ..< length (zombieObjs H) + n]
     (layout H v) =
   Some (layout H (v\<lparr>zombies := map (updateNext (humans v) (rich v)) (zombies v)\<rparr>))"
  by (simp add: phase_updateNext)

lemma lookup_newRef [simp]: "lookup (stateObjs H @ [so]) (newRef H) = Some so"
  by (simp add: newRef_def)

lemma simulateTurnH_layout:
  assumes "readState H p = Some v"
  shows "simulateTurnH H p tx ty = Some (layout H (simulateTurn v tx ty), newRef H)"
proof -
  define s1 where "s1 = v\<lparr>turn := turn v + 1\<rparr>"
  define s2 where "s2 = s1\<lparr>zombies := map (moveZombie (humans s1) (rich s1)) (zombies s1)\<rparr>"
  define richNewPos where
    "richNewPos = moveTowards (p_x (rich s2)) (p_y (rich s2)) tx ty RICH_SPEED"
  define s3 where "s3 = s2\<lparr>rich := (rich s2)\<lparr>p_x := p_x richNewPos, p_y := p_y richNewPos\<rparr>\<rparr>"
  define aliveHumans where "aliveHumans = length (filter h_alive (humans s3))"
  define res where "res = killZombies (rich s3) aliveHumans (zombies s3) (0, score s3)"
  define s4 where "s4 = s3\<lparr>zombies := fst res, score := snd (snd res)\<rparr>"
  define s5 where "s5 = s4\<lparr>humans := eatHumans (zombies s4) (humans s4)\<rparr>"
  define s6 where "s6 = s5\<lparr>zombies := map (updateNext (humans s5) (rich s5)) (zombies s5)\<rparr>"
  define zas where
    "zas = [length (zombieObjs H) ..< length (zombieObjs H) + length (zombies v)]"
  have pure: "simulateTurn v tx ty = checkEnd s6"
    unfolding simulateTurn_def s6_def s5_def s4_def res_def aliveHumans_def s3_def
      richNewPos_def s2_def s1_def
    by (simp add: Let_def case_prod_beta)
  have len: "length (zombies v) = length (zombies s1)" "length (zombies v) = length (zombies s2)"
    "length (zombies v) = length (zombies s3)" "length (zombies v) = length (zombies s4)"
    "length (zombies v) = length (zombies s5)"
    by (simp_all add: s1_def s2_def s3_def s4_def s5_def res_def killZombies_fst)
  have c: "cloneState H p = Some (layout H v, newRef H)"
    by (simp add: cloneState_def assms allocState_eq)
  have p1: "incTurnH (newRef H) (layout H v) = Some (layout H s1)"
    unfolding s1_def by (rule phase_incTurn)
  have so: "lookup (stateObjs (layout H s1)) (newRef H) = Some (stateObjOf H s1)"
    by simp
  have za: "lookup (zombieArrays (layout H s1)) (o_zombies (stateObjOf H s1)) = Some zas"
    by (simp add: zas_def s1_def)
  have p2: "forEachH (moveZombieH (newRef H)) zas (layout H s1) = Some (layout H s2)"
    unfolding zas_def s2_def by (rule phase_moveZombies') (rule len)
  have p3: "moveRichH (newRef H) tx ty (layout H s2) = Some (layout H s3)"
    unfolding s3_def richNewPos_def by (rule phase_moveRich)
  have hs: "readHumans (layout H s3) (o_humans (stateObjOf H s1)) = Some (humans s3)"
    by simp
  have p4: "killLoopH (newRef H) aliveHumans zas 0 (layout H s3) =
      Some (fst (snd res), layout H s4)"
    unfolding zas_def s4_def res_def by (rule phase_kill') (rule len)
  have p5: "forEachH (eatOuterH (newRef H)) zas (layout H s4) = Some (layout H s5)"
    unfolding zas_def s5_def by (rule phase_eat') (rule len)
  have p6: "forEachH (updateNextH (newRef H)) zas (layout H s5) = Some (layout H s6)"
    unfolding zas_def s6_def by (rule phase_updateNext') (rule len)
  have p7: "checkEndH (newRef H) (layout H s6) = Some (layout H (checkEnd s6))"
    by (rule phase_checkEnd)
  show ?thesis
    unfolding simulateTurnH_def pure
    by (simp only: c p1 so za p2 p3 hs p4 p5 p6 p7 aliveHumans_def [symmetric]
          bind.bind_lunit prod.case)
qed

lemma lookup_append_old: "lookup xs a = Some x \<Longrightarrow> lookup (xs @ ext) a = Some x"
  by (auto simp: lookup_def nth_append split: if_splits)

lemma lookupAll_append_old:
  "lookupAll xs as = Some ys \<Longrightarrow> lookupAll (xs @ ext) as = Some ys"
proof (induction as arbitrary: ys)
  case Nil
  then show ?case by simp
next
  case (Cons a as)
  then obtain x ys' where "lookup xs a = Some x" "lookupAll xs as = Some ys'" "ys = x # ys'"
    by (auto simp: bind_eq_Some_conv)
  then show ?case
    using Cons.IH [of ys'] by (simp add: lookup_append_old)
qed

lemma readState_layout_old:
  assumes "readState H p = Some v"
  shows "readState (layout H w) p = Some v"
proof -
  from assms obtain so r hs zs has zas where
    so: "lookup (stateObjs H) p = Some so"
    and r: "lookup (points H) (o_rich so) = Some r"
    and has: "lookup (humanArrays H) (o_humans so) = Some has"
    and hs: "lookupAll (humanObjs H) has = Some hs"
    and zas: "lookup (zombieArrays H) (o_zombies so) = Some zas"
    and zs: "lookupAll (zombieObjs H) zas = Some zs"
    and v: "v = \<lparr>rich = r, humans = hs, zombies = zs, score = o_score so, turn = o_turn so,
             gameOver = o_gameOver so, won = o_won so, message = o_message so\<rparr>"
    by (auto simp: readState_def readHumans_def readZombies_def bind_eq_Some_conv)
  show ?thesis
    unfolding readState_def readHumans_def readZombies_def layout_fields
    by (simp add: lookup_append_old [OF so] lookup_append_old [OF r]
          lookup_append_old [OF has] lookup_append_old [OF zas]
          lookupAll_append_old [OF hs] lookupAll_append_old [OF zs] v)
qed

text \<open>
  C5. When the caller's state object can be read as the value \<open>v\<close>, the call returns a
  new reference; every object that existed before the call is unchanged (each store of the
  result begins with the store of the input), so the caller's state still reads as \<open>v\<close>;
  the returned state reads as \<open>simulateTurn v tx ty\<close>; and any other call, in any store,
  on a state that reads as the same \<open>v\<close> with the same destination returns a state that
  reads as the same value.
\<close>

theorem simulateTurnH_pure:
  assumes "readState H state = Some v"
  shows "\<exists>H' newState.
     simulateTurnH H state tx ty = Some (H', newState) \<and>
     take (length (points H)) (points H') = points H \<and>
     take (length (humanObjs H)) (humanObjs H') = humanObjs H \<and>
     take (length (zombieObjs H)) (zombieObjs H') = zombieObjs H \<and>
     take (length (humanArrays H)) (humanArrays H') = humanArrays H \<and>
     take (length (zombieArrays H)) (zombieArrays H') = zombieArrays H \<and>
     take (length (stateObjs H)) (stateObjs H') = stateObjs H \<and>
     readState H' state = Some v \<and>
     readState H' newState = Some (simulateTurn v tx ty) \<and>
     (\<forall>H2 state2. readState H2 state2 = Some v \<longrightarrow>
        (\<exists>H2' newState2. simulateTurnH H2 state2 tx ty = Some (H2', newState2) \<and>
           readState H2' newState2 = readState H' newState))"
proof -
  let ?H' = "layout H (simulateTurn v tx ty)"
  have run: "simulateTurnH H state tx ty = Some (?H', newRef H)"
    by (rule simulateTurnH_layout [OF assms])
  have old: "readState ?H' state = Some v"
    by (rule readState_layout_old [OF assms])
  have new: "readState ?H' (newRef H) = Some (simulateTurn v tx ty)"
    by (rule readState_layout)
  have det: "\<forall>H2 state2. readState H2 state2 = Some v \<longrightarrow>
        (\<exists>H2' newState2. simulateTurnH H2 state2 tx ty = Some (H2', newState2) \<and>
           readState H2' newState2 = readState ?H' (newRef H))"
  proof (intro allI impI)
    fix H2 state2
    assume "readState H2 state2 = Some v"
    then have "simulateTurnH H2 state2 tx ty =
        Some (layout H2 (simulateTurn v tx ty), newRef H2) \<and>
        readState (layout H2 (simulateTurn v tx ty)) (newRef H2) = readState ?H' (newRef H)"
      by (simp add: simulateTurnH_layout readState_layout)
    then show "\<exists>H2' newState2. simulateTurnH H2 state2 tx ty = Some (H2', newState2) \<and>
           readState H2' newState2 = readState ?H' (newRef H)"
      by blast
  qed
  have frame: "take (length (points H)) (points ?H') = points H"
    "take (length (humanObjs H)) (humanObjs ?H') = humanObjs H"
    "take (length (zombieObjs H)) (zombieObjs ?H') = zombieObjs H"
    "take (length (humanArrays H)) (humanArrays ?H') = humanArrays H"
    "take (length (zombieArrays H)) (zombieArrays ?H') = zombieArrays H"
    "take (length (stateObjs H)) (stateObjs ?H') = stateObjs H"
    by simp_all
  show ?thesis
    apply (rule exI [of _ ?H'])
    apply (rule exI [of _ "newRef H"])
    apply (intro conjI)
    subgoal by (rule run)
    subgoal by (rule frame)
    subgoal by (rule frame)
    subgoal by (rule frame)
    subgoal by (rule frame)
    subgoal by (rule frame)
    subgoal by (rule frame)
    subgoal by (rule old)
    subgoal by (rule new)
    subgoal by (rule det)
    done
qed

text \<open>
  In \<open>aliasHeap\<close> the state object's array holds the same human object twice; the call
  leaves the old objects in place and returns a new reference, and a second call on the
  same reference in the resulting store returns a state that reads as the same value.
\<close>

theorem simulateTurnH_pure_witness:
  "readState aliasHeap 0 = Some aliasState \<and>
   (\<exists>H' newState.
      simulateTurnH aliasHeap 0 8000 4500 = Some (H', newState) \<and>
      take 1 (stateObjs H') = stateObjs aliasHeap \<and>
      take 1 (zombieObjs H') = zombieObjs aliasHeap \<and>
      readState H' 0 = Some aliasState \<and>
      readState H' newState = Some (simulateTurn aliasState 8000 4500) \<and>
      (\<exists>H'' newState'.
         simulateTurnH H' 0 8000 4500 = Some (H'', newState') \<and>
         readState H'' newState' = readState H' newState))"
proof -
  have r: "readState aliasHeap 0 = Some aliasState"
    by (simp add: readState_def readHumans_def readZombies_def lookup_def aliasHeap_def
          aliasState_def)
  have l: "length (stateObjs aliasHeap) = 1" "length (zombieObjs aliasHeap) = 1"
    by (simp_all add: aliasHeap_def)
  from simulateTurnH_pure [OF r, of 8000 4500] obtain H' newState where
    run: "simulateTurnH aliasHeap 0 8000 4500 = Some (H', newState)"
    and st: "take 1 (stateObjs H') = stateObjs aliasHeap"
    and zo: "take 1 (zombieObjs H') = zombieObjs aliasHeap"
    and old: "readState H' 0 = Some aliasState"
    and new: "readState H' newState = Some (simulateTurn aliasState 8000 4500)"
    and det: "\<forall>H2 state2. readState H2 state2 = Some aliasState \<longrightarrow>
        (\<exists>H2' newState2. simulateTurnH H2 state2 8000 4500 = Some (H2', newState2) \<and>
           readState H2' newState2 = readState H' newState)"
    unfolding l by blast
  from det old have again: "\<exists>H'' newState'.
         simulateTurnH H' 0 8000 4500 = Some (H'', newState') \<and>
         readState H'' newState' = readState H' newState"
    by blast
  show ?thesis
    using r run st zo old new again by blast
qed

section \<open>C6: the score never decreases\<close>

text \<open>
  C6. For every state and destination the score after \<open>simulateTurn\<close> is at least the score
  before: every elimination adds a non-negative amount.
\<close>

theorem score_monotone: "score s \<le> score (simulateTurn s tx ty)"
proof -
  have "0 \<le> (\<Sum>i<killsThisTurn s tx ty.
                int (aliveHumansOf s) * int (aliveHumansOf s) * 10 * fibonacci i)"
    by (intro sum_nonneg mult_nonneg_nonneg) (simp_all add: less_imp_le fibonacci_pos)
  then show ?thesis
    by (simp add: simulateTurn_score)
qed

theorem score_monotone_witness:
  "score packWorld = 0 \<and> score packWorld \<le> score (simulateTurn packWorld 8000 4500)"
  using score_monotone [of packWorld 8000 4500] by (simp add: packWorld_def)

section \<open>C7: no resurrection\<close>

text \<open>
  C7. The lists of friendlies and hostiles keep their length and their identities, and an
  entity that is not alive in the input state is not alive in the state returned by
  \<open>simulateTurn\<close>.
\<close>

theorem no_resurrection:
  "length (humans (simulateTurn s tx ty)) = length (humans s) \<and>
   length (zombies (simulateTurn s tx ty)) = length (zombies s) \<and>
   (\<forall>i<length (humans s).
      h_id (humans (simulateTurn s tx ty) ! i) = h_id (humans s ! i) \<and>
      (\<not> h_alive (humans s ! i) \<longrightarrow> \<not> h_alive (humans (simulateTurn s tx ty) ! i))) \<and>
   (\<forall>i<length (zombies s).
      z_id (zombies (simulateTurn s tx ty) ! i) = z_id (zombies s ! i) \<and>
      (\<not> z_alive (zombies s ! i) \<longrightarrow> \<not> z_alive (zombies (simulateTurn s tx ty) ! i)))"
proof (intro conjI allI impI)
  fix i assume i: "i < length (humans s)"
  show "h_id (humans (simulateTurn s tx ty) ! i) = h_id (humans s ! i)"
    using i by (simp add: simulateTurn_humans eatHumans_position)
  assume "\<not> h_alive (humans s ! i)"
  then show "\<not> h_alive (humans (simulateTurn s tx ty) ! i)"
    using i by (simp add: simulateTurn_humans eatHumans_dead)
next
  fix i assume i: "i < length (zombies s)"
  show "z_id (zombies (simulateTurn s tx ty) ! i) = z_id (zombies s ! i)"
    using i by (simp add: simulateTurn_zombie_nth survivingZombies_nth Let_def moveZombie_def)
  assume "\<not> z_alive (zombies s ! i)"
  then show "\<not> z_alive (zombies (simulateTurn s tx ty) ! i)"
    using i by (simp add: simulateTurn_zombie_nth survivingZombies_dead)
qed simp_all

theorem no_resurrection_witness:
  "3 < length (humans packWorld) \<and> \<not> h_alive (humans packWorld ! 3) \<and>
   \<not> h_alive (humans (simulateTurn packWorld 8000 4500) ! 3) \<and>
   3 < length (zombies packWorld) \<and> \<not> z_alive (zombies packWorld ! 3) \<and>
   \<not> z_alive (zombies (simulateTurn packWorld 8000 4500) ! 3)"
proof -
  have h: "3 < length (humans packWorld)" "\<not> h_alive (humans packWorld ! 3)"
    by (simp_all add: packWorld_def)
  have z: "3 < length (zombies packWorld)" "\<not> z_alive (zombies packWorld ! 3)"
    by (simp_all add: packWorld_def)
  show ?thesis
    using no_resurrection [of packWorld 8000 4500] h z by blast
qed

section \<open>C8: the batch evaluator\<close>




lemma runLoop_hang:
  "\<not> gameOver s \<Longrightarrow> turn s < maxTurns \<Longrightarrow> alg \<sigma> s = Hang \<Longrightarrow> runLoop alg \<sigma> s = None"
  by (subst runLoop.simps) simp




text \<open>
  A hostile on the vertical axis far below the origin, moving towards the origin: it stays
  on the axis, on the grid, and climbs by at most 401.
\<close>

lemma climb:
  assumes "y \<in> \<int>" and "- 100000 \<le> y" and "y \<le> - 401"
  shows "p_x (moveTowards 0 y 0 0 400) = 0"
    and "p_y (moveTowards 0 y 0 0 400) \<in> \<int>"
    and "y \<le> p_y (moveTowards 0 y 0 0 400)"
    and "p_y (moveTowards 0 y 0 0 400) \<le> y + 401"
proof -
  let ?m = "moveTowards 0 y 0 0 400"
  have b: "\<bar>y\<bar> \<le> 2 ^ 20" using assms(2,3) by simp
  have x: "min 0 0 \<le> p_x ?m" "p_x ?m \<le> max 0 0"
    using assms(1) b by (intro moveTowards_between(1) moveTowards_between(2); simp)+
  then show "p_x ?m = 0" by simp
  show i: "p_y ?m \<in> \<int>"
    using assms(1) b by (intro moveTowards_between(6)) simp_all
  have "min y 0 \<le> p_y ?m"
    using assms(1) b by (intro moveTowards_between(3)) simp_all
  then show lo: "y \<le> p_y ?m" using assms(3) by simp
  have "euclid 0 y (p_x ?m) (p_y ?m) < 400 + 3 / 2"
    using b by (intro moveTowards_near) simp_all
  then have "\<bar>p_y ?m - y\<bar> < 400 + 3 / 2"
    using \<open>p_x ?m = 0\<close> by (simp add: euclid_def)
  then have lt: "p_y ?m - y < 402" by linarith
  obtain k where k: "p_y ?m = of_int k" using i by (auto elim: Ints_cases)
  obtain j where j: "y = of_int j" using assms(1) by (auto elim: Ints_cases)
  have "real_of_int k - y < 402" using lt by (simp only: k)
  then have "real_of_int (k - j) < real_of_int 402" by (simp add: j)
  then have "k - j < 402" by (simp only: of_int_less_iff)
  then have "k - j \<le> 401" by simp
  then have "real_of_int (k - j) \<le> real_of_int 401" by (simp only: of_int_le_iff)
  then have "real_of_int k \<le> y + 401" by (simp add: j)
  then show "p_y ?m \<le> y + 401" by (simp only: k)
qed

lemma farInv_step:
  assumes "farInv s" and "turn s < 200"
  shows "farInv (simulateTurn s 0 0)"
proof -
  from assms(1) obtain h z where
    r: "rich s = \<lparr>p_x = 0, p_y = 0\<rparr>"
    and h: "humans s = [h]" "h_alive h" "h_x h = 0" "h_y h = 1000"
    and z: "zombies s = [z]" "z_alive z" "z_x z = 0" "z_y z \<in> \<int>" "- 100000 \<le> z_y z"
      "z_y z \<le> - 100000 + 401 * real_of_int (turn s)"
    and g: "\<not> gameOver s"
    unfolding farInv_def by blast
  let ?y = "z_y z"
  have "real_of_int (turn s) \<le> 199"
    using assms(2) by simp
  then have y: "?y \<le> - 20201"
    using z(6) by linarith
  have target: "findClosestHuman z (humans s) (rich s) = \<lparr>p_x = 0, p_y = 0\<rparr>"
    using y z(4,5) by (simp add: findClosestHuman_def h r z(3) distance_vertical)
  then have target': "findClosestHuman z (humans s) \<lparr>p_x = 0, p_y = 0\<rparr> = \<lparr>p_x = 0, p_y = 0\<rparr>"
    by (simp add: r)
  define y' where "y' = p_y (moveTowards 0 ?y 0 0 400)"
  have c: "p_x (moveTowards 0 ?y 0 0 400) = 0" "y' \<in> \<int>" "?y \<le> y'" "y' \<le> ?y + 401"
    unfolding y'_def using z(4,5) y by (intro climb; simp)+
  have moved: "movedZombies s = [z\<lparr>z_x := 0, z_y := y'\<rparr>]"
    by (simp add: movedZombies_def moveZombie_def target' z r ZOMBIE_SPEED_def y'_def c(1) Let_def)
  have rich': "richAfter s 0 0 = \<lparr>p_x = 0, p_y = 0\<rparr>"
    using distance_vertical [of 0 0]
    by (simp add: richAfter_def r moveTowards_def RICH_SPEED_def)
  have surv: "survivingZombies s 0 0 = [z\<lparr>z_x := 0, z_y := y'\<rparr>]"
    using y c z(5) by (simp add: survivingZombies_def moved rich' inRange_def RICH_RANGE_def
          distance_vertical)
  have hs: "humans (simulateTurn s 0 0) = [h]"
    using y c z(5) by (simp add: simulateTurn_humans surv h z(2) eatHuman_def distance_vertical)
  have zs: "zombies (simulateTurn s 0 0) =
      [updateNext [h] \<lparr>p_x = 0, p_y = 0\<rparr> (z\<lparr>z_x := 0, z_y := y'\<rparr>)]"
    by (simp add: simulateTurn_zombies surv hs rich')
  have "\<not> gameOver (simulateTurn s 0 0)"
    using g by (simp add: simulateTurn_gameOver hs zs h(2) z(2))
  moreover have "y' \<le> - 100000 + 401 * real_of_int (turn s + 1)"
    using c(4) z(6) by simp
  moreover have "- 100000 \<le> y'"
    using c(3) z(5) by simp
  ultimately show ?thesis
    using assms(2) h z(2) c(2)
    by (simp add: farInv_def simulateTurn_rich rich' hs zs simulateTurn_turn)
qed

lemma farInv_won [simp]: "farInv (s\<lparr>won := w\<rparr>) = farInv s"
  by (simp add: farInv_def)



lemma farWorld_inv: "farInv farWorld"
  by (simp add: farInv_def farWorld_def)





text \<open>Without a strategy the evaluator answers false.\<close>

lemma runTestCase_no_algorithm: "runTestCase None \<sigma> s0 = Some False"
  by (simp add: runTestCase_def)

text \<open>
  The cap counts the \<open>turn\<close> field of the state, which the strategy can write as well.
  The strategy \<open>startOver farWorld\<close> puts the initial state back at every call: the turn
  counter never passes 1 and the evaluator does not return.
\<close>

lemma startOver_loops:
  assumes "runLoop (startOver farWorld) \<sigma> s = Some y"
  shows "gameOver s \<or> maxTurns \<le> turn s"
proof -
  let ?s1 = "simulateTurn farWorld 0 0"
  have s1: "\<not> gameOver ?s1" "turn ?s1 < maxTurns"
  proof -
    have "farInv ?s1"
      using farWorld_inv by (rule farInv_step) (simp add: farWorld_def)
    then show "\<not> gameOver ?s1" by (simp add: farInv_def)
    show "turn ?s1 < maxTurns"
      by (simp add: simulateTurn_turn farWorld_def maxTurns_def)
  qed
  have "alg = startOver farWorld \<longrightarrow> gameOver s \<or> maxTurns \<le> turn s"
    if "runLoop alg \<sigma> s = Some y" for alg
  proof (rule runLoop.raw_induct
      [where P = "\<lambda>alg \<sigma> s y. alg = startOver farWorld \<longrightarrow> gameOver s \<or> maxTurns \<le> turn s",
        OF _ that])
    fix loop :: "(unit \<Rightarrow> game_state \<Rightarrow> unit reply) \<Rightarrow> unit \<Rightarrow> game_state \<Rightarrow> run option"
    fix alg \<sigma> s y
    assume IH: "\<And>alg \<sigma> s y. loop alg \<sigma> s = Some y \<Longrightarrow>
        alg = startOver farWorld \<longrightarrow> gameOver s \<or> maxTurns \<le> turn s"
    assume body: "(if \<not> gameOver s \<and> turn s < maxTurns
        then case alg \<sigma> s of
               Reply \<sigma>' s' target \<Rightarrow> loop alg \<sigma>' (simulateTurn s' (p_x target) (p_y target))
             | Throw \<Rightarrow> Some Thrown
             | Hang \<Rightarrow> None
        else Some (Ended s)) = Some y"
    show "alg = startOver farWorld \<longrightarrow> gameOver s \<or> maxTurns \<le> turn s"
    proof (intro impI, rule ccontr)
      assume a: "alg = startOver farWorld" and "\<not> (gameOver s \<or> maxTurns \<le> turn s)"
      then have go: "\<not> gameOver s \<and> turn s < maxTurns" by simp
      have "loop alg () ?s1 = Some y"
        using body go a by (simp add: startOver_def farWorld_def)
      from IH [OF this] a s1 show False by simp
    qed
  qed
  with assms show ?thesis by blast
qed

lemma runTestCase_startOver: "runTestCase (Some (startOver farWorld)) () farWorld = None"
proof (cases "runLoop (startOver farWorld) () farWorld")
  case None
  then show ?thesis by (simp add: runTestCase_def)
next
  case (Some y)
  from startOver_loops [OF this] show ?thesis
    by (simp add: farWorld_def maxTurns_def)
qed

section \<open>C9: dead hostiles are left alone\<close>

lemma filter_map_cong_filter:
  "(\<And>x. P (g x) \<Longrightarrow> Q x) \<Longrightarrow> filter P (map g (filter Q xs)) = filter P (map g xs)"
  by (induction xs) auto

lemma onlyAlive_moved:
  "movedZombies (s\<lparr>zombies := filter z_alive (zombies s)\<rparr>) = filter z_alive (movedZombies s)"
  by (simp add: movedZombies_def filter_map comp_def)

lemma onlyAlive_rich [simp]: "richAfter (s\<lparr>zombies := zs\<rparr>) tx ty = richAfter s tx ty"
  by (simp add: richAfter_def)

lemma onlyAlive_aliveHumans [simp]: "aliveHumansOf (s\<lparr>zombies := zs\<rparr>) = aliveHumansOf s"
  by (simp add: aliveHumansOf_def)

lemma onlyAlive_kills:
  "killsThisTurn (s\<lparr>zombies := filter z_alive (zombies s)\<rparr>) tx ty = killsThisTurn s tx ty"
proof -
  have "filter (inRange r) (filter z_alive zs) = filter (inRange r) zs" for r zs
    by (induction zs) (auto simp: inRange_def)
  then show ?thesis
    by (simp add: killsThisTurn_def onlyAlive_moved)
qed

lemma onlyAlive_surviving:
  "filter z_alive (survivingZombies (s\<lparr>zombies := filter z_alive (zombies s)\<rparr>) tx ty) =
   filter z_alive (survivingZombies s tx ty)"
  unfolding survivingZombies_def onlyAlive_moved onlyAlive_rich
  by (rule filter_map_cong_filter) (simp split: if_splits)

text \<open>
  C9. A hostile that is not alive in the input state is returned with all its fields
  unchanged; and the friendlies and the score after the turn are the ones of the same world
  without its dead hostiles, so a dead hostile neither eliminates a friendly nor scores.
\<close>

theorem dead_zombies_frame:
  "(\<forall>i<length (zombies s).
      \<not> z_alive (zombies s ! i) \<longrightarrow> zombies (simulateTurn s tx ty) ! i = zombies s ! i) \<and>
   humans (simulateTurn (s\<lparr>zombies := filter z_alive (zombies s)\<rparr>) tx ty) =
     humans (simulateTurn s tx ty) \<and>
   score (simulateTurn (s\<lparr>zombies := filter z_alive (zombies s)\<rparr>) tx ty) =
     score (simulateTurn s tx ty)"
proof (intro conjI allI impI)
  fix i assume "i < length (zombies s)" "\<not> z_alive (zombies s ! i)"
  then show "zombies (simulateTurn s tx ty) ! i = zombies s ! i"
    by (simp add: simulateTurn_zombie_nth survivingZombies_dead)
next
  have "eatHumans (survivingZombies (s\<lparr>zombies := filter z_alive (zombies s)\<rparr>) tx ty) (humans s)
      = eatHumans (survivingZombies s tx ty) (humans s)"
    using onlyAlive_surviving [of s tx ty] by (metis eatHumans_filter)
  then show "humans (simulateTurn (s\<lparr>zombies := filter z_alive (zombies s)\<rparr>) tx ty) =
     humans (simulateTurn s tx ty)"
    by (simp add: simulateTurn_humans)
next
  show "score (simulateTurn (s\<lparr>zombies := filter z_alive (zombies s)\<rparr>) tx ty) =
     score (simulateTurn s tx ty)"
    by (simp add: simulateTurn_score onlyAlive_kills)
qed

theorem dead_zombies_frame_witness:
  "3 < length (zombies packWorld) \<and> \<not> z_alive (zombies packWorld ! 3) \<and>
   zombies (simulateTurn packWorld 8000 4500) ! 3 =
     \<lparr>z_id = 3, z_x = 1000, z_y = 1000, z_xNext = 7, z_yNext = 9, z_alive = False\<rparr>"
proof -
  have z: "3 < length (zombies packWorld)" "\<not> z_alive (zombies packWorld ! 3)"
    "zombies packWorld ! 3 =
       \<lparr>z_id = 3, z_x = 1000, z_y = 1000, z_xNext = 7, z_yNext = 9, z_alive = False\<rparr>"
    by (simp_all add: packWorld_def)
  show ?thesis
    using dead_zombies_frame [of packWorld 8000 4500] z by metis
qed

section \<open>C10: the predation radius is inclusive\<close>

text \<open>
  C10. A friendly at distance at most 400, in particular exactly 400, from the position
  after the move of a hostile that is alive after the elimination pass is not alive after
  the turn.
\<close>

theorem predation_inclusive:
  assumes "z \<in> set (survivingZombies s tx ty)" and "z_alive z"
    and "i < length (humans s)"
    and "distance (z_x z) (z_y z) (h_x (humans s ! i)) (h_y (humans s ! i)) \<le> 400"
  shows "\<not> h_alive (humans (simulateTurn s tx ty) ! i)"
  using assms by (simp add: simulateTurn_humans eatHumans_eats)

theorem predation_inclusive_witness:
  "\<lparr>z_id = 2, z_x = 1000, z_y = 1000, z_xNext = 0, z_yNext = 0, z_alive = True\<rparr>
     \<in> set (survivingZombies packWorld 8000 4500) \<and>
   1 < length (humans packWorld) \<and>
   distance 1000 1000 (h_x (humans packWorld ! 1)) (h_y (humans packWorld ! 1)) = 400 \<and>
   h_alive (humans packWorld ! 1) \<and>
   \<not> h_alive (humans (simulateTurn packWorld 8000 4500) ! 1)"
proof -
  let ?z = "\<lparr>z_id = 2, z_x = 1000, z_y = 1000, z_xNext = 0, z_yNext = 0, z_alive = True\<rparr>"
  have m: "?z \<in> set (survivingZombies packWorld 8000 4500)"
    by (simp add: packWorld_surviving)
  have i: "1 < length (humans packWorld)" "h_alive (humans packWorld ! 1)"
    by (simp_all add: packWorld_def)
  have "sqrt 160000 = 400"
    by (rule real_sqrt_unique) simp_all
  then have "euclid 1000 1000 1240 1320 = 400"
    by (simp add: euclid_def)
  moreover have "distance 1000 1000 1240 1320 = rnd (euclid 1000 1000 1240 1320)"
    by (intro distance_int) simp_all
  ultimately have "distance 1000 1000 1240 1320 = 400"
    by (simp add: rnd_numeral)
  then have d: "distance 1000 1000 (h_x (humans packWorld ! 1)) (h_y (humans packWorld ! 1)) = 400"
    by (simp add: packWorld_def)
  have "\<not> h_alive (humans (simulateTurn packWorld 8000 4500) ! 1)"
    using predation_inclusive [of ?z packWorld 8000 4500 1] m i(1) d by simp
  then show ?thesis
    using m i d by simp
qed

end
